theory Spec2Isabelle
  imports Main "HOL-Library.Multiset"
begin

section \<open>JavaScript values used by the module\<close>

text \<open>
  Optional properties (\<open>x?: string\<close>, \<open>x?: boolean\<close>) are options, \<open>None\<close> being
  \<open>undefined\<close>. The truthiness tests of the source (\<open>if (x)\<close>, \<open>!x\<close>, \<open>a || b\<close>) are
  written out: a string is truthy when it is present and not empty, a boolean when it is
  present and true.
\<close>

definition truthy_string :: "string option \<Rightarrow> bool" where
  "truthy_string s = (case s of None \<Rightarrow> False | Some v \<Rightarrow> v \<noteq> [])"

definition truthy_bool :: "bool option \<Rightarrow> bool" where
  "truthy_bool b = (case b of None \<Rightarrow> False | Some v \<Rightarrow> v)"

datatype error = Error string

section \<open>FindInFilesCommand\<close>

record IFindInFilesArgs =
  query :: "string option"
  replace :: "string option"
  preserveCase :: "bool option"
  triggerSearch :: "bool option"
  filesToInclude :: "string option"
  filesToExclude :: "string option"
  isRegex :: "bool option"
  isCaseSensitive :: "bool option"
  matchWholeWord :: "bool option"
  useExcludeSettingsAndIgnoreFiles :: "bool option"
  onlyOpenEditors :: "bool option"

text \<open>The argument object handed to the open-search-editor command (fields prefixed \<open>ose_\<close>).\<close>

record OpenSearchEditorArgs =
  ose_location :: string
  ose_query :: "string option"
  ose_filesToInclude :: "string option"
  ose_filesToExclude :: "string option"
  ose_matchWholeWord :: "bool option"
  ose_isCaseSensitive :: "bool option"
  ose_isRegexp :: "bool option"
  ose_useExcludeSettingsAndIgnoreFiles :: "bool option"
  ose_onlyOpenEditors :: "bool option"
  ose_showIncludesExcludes :: bool

text \<open>
  \<open>convertArgs\<close> is the arrow function of the \<open>else\<close> branch; \<open>mode\<close> is the captured
  \<open>searchConfig.mode\<close>. The source tests \<open>args.filesToExclude\<close> twice in
  \<open>showIncludesExcludes\<close>, and so does the model.
\<close>

definition convertArgs :: "string \<Rightarrow> IFindInFilesArgs \<Rightarrow> OpenSearchEditorArgs" where
  "convertArgs mode args =
     \<lparr> ose_location = (if mode = ''newEditor'' then ''new'' else ''reuse''),
       ose_query = query args,
       ose_filesToInclude = filesToInclude args,
       ose_filesToExclude = filesToExclude args,
       ose_matchWholeWord = matchWholeWord args,
       ose_isCaseSensitive = isCaseSensitive args,
       ose_isRegexp = isRegex args,
       ose_useExcludeSettingsAndIgnoreFiles = useExcludeSettingsAndIgnoreFiles args,
       ose_onlyOpenEditors = onlyOpenEditors args,
       ose_showIncludesExcludes =
         (truthy_string (filesToExclude args) \<or> truthy_string (filesToExclude args)
          \<or> \<not> truthy_bool (useExcludeSettingsAndIgnoreFiles args)) \<rparr>"

text \<open>
  The calls \<open>FindInFilesCommand\<close> issues to the host, in order. \<open>openedView\<close> says whether
  \<open>openSearchView\<close> resolved with a view, \<open>updated\<close> is what the view's
  \<open>updateTextFromFindWidgetOrSelection\<close> answers; both are the host's to decide.
\<close>

datatype find_call =
    OpenView bool
  | ToggleReplace bool
  | SetSearchParameters IFindInFilesArgs
  | UpdateTextFromFindWidgetOrSelection bool
  | WidgetFocus bool bool
  | ExecuteOpenEditorCommand OpenSearchEditorArgs

definition FindInFilesCommand :: "string \<Rightarrow> bool \<Rightarrow> bool \<Rightarrow> IFindInFilesArgs \<Rightarrow> find_call list" where
  "FindInFilesCommand mode openedView updated args =
     (if mode = ''view'' then
        OpenView False #
        (if openedView then
           ToggleReplace (replace args \<noteq> None) #
           (if query args \<noteq> None
            then [SetSearchParameters args, WidgetFocus False False]
            else [UpdateTextFromFindWidgetOrSelection (replace args = None),
                  WidgetFocus updated updated])
         else [])
      else [ExecuteOpenEditorCommand (convertArgs mode args)])"

section \<open>The workbench bootstrap: create\<close>

datatype Menu = CommandPalette | StatusBarWindowIndicatorMenu

datatype MenuId = MenuId_CommandPalette | MenuId_StatusBarWindowIndicatorMenu

fun asMenuId :: "Menu \<Rightarrow> MenuId" where
  "asMenuId CommandPalette = MenuId_CommandPalette"
| "asMenuId StatusBarWindowIndicatorMenu = MenuId_StatusBarWindowIndicatorMenu"

text \<open>\<open>command.menu\<close> is one menu or an array of menus; \<open>asArray\<close> wraps the single one.\<close>

datatype menu_spec = OneMenu Menu | MenuArray "Menu list"

fun asArray :: "menu_spec \<Rightarrow> Menu list" where
  "asArray (OneMenu m) = [m]"
| "asArray (MenuArray ms) = ms"

record ('arg, 'res) ICommand =
  cmd_id :: string
  handler :: "'arg list \<Rightarrow> 'res"
  label :: "string option"
  menu :: "menu_spec option"

text \<open>
  What a registered command answers: the result of the embedder's handler, or the tarball
  proxy endpoints of the built-in command.
\<close>

datatype 'res command_result = HandlerResult 'res | Endpoints "(string \<times> string) list"

record ('arg, 'res) IWorkbenchConstructionOptions =
  commands :: "('arg, 'res) ICommand list option"
  tarballProxyEndpoints :: "(string \<times> string) list option"

text \<open>
  The module-level flag \<open>created\<close> and the host services \<open>create\<close> writes to. The host's
  registries are external: they are the logs of the calls made to them, in order
  (\<open>mark\<close>, \<open>CommandsRegistry.registerCommand\<close>, \<open>MenuRegistry.appendMenuItem\<close>,
  \<open>new BrowserMain(domElement, options).open()\<close>). A registered handler takes the services
  accessor and the arguments. A menu item is the menu id, the command id and the title.
\<close>

record ('acc, 'arg, 'res) web_state =
  created :: bool
  marks :: "string list"
  commandsRegistry :: "(string \<times> ('acc \<Rightarrow> 'arg list \<Rightarrow> 'res command_result)) list"
  menuRegistry :: "(MenuId \<times> string \<times> string) list"
  workbenches :: "(nat \<times> ('arg, 'res) IWorkbenchConstructionOptions) list"

text \<open>
  \<open>CommandsRegistry.registerCommand\<close> rejects a falsy id: on the empty string it throws
  \<open>invalid command\<close> and registers nothing.
\<close>

definition registerCommand ::
  "string \<Rightarrow> ('acc \<Rightarrow> 'arg list \<Rightarrow> 'res command_result) \<Rightarrow> ('acc, 'arg, 'res) web_state
     \<Rightarrow> error + ('acc, 'arg, 'res) web_state" where
  "registerCommand i h st =
     (if i = [] then Inl (Error ''invalid command'')
      else Inr (st\<lparr>commandsRegistry := commandsRegistry st @ [(i, h)]\<rparr>))"

definition appendMenuItem ::
  "MenuId \<Rightarrow> string \<Rightarrow> string \<Rightarrow> ('acc, 'arg, 'res) web_state \<Rightarrow> ('acc, 'arg, 'res) web_state" where
  "appendMenuItem m i title st = st\<lparr>menuRegistry := menuRegistry st @ [(m, i, title)]\<rparr>"

text \<open>The menus a command asks for: \<open>asArray(command.menu ?? Menu.CommandPalette)\<close>.\<close>

definition menusOf :: "('arg, 'res) ICommand \<Rightarrow> Menu list" where
  "menusOf command = asArray (case menu command of None \<Rightarrow> OneMenu CommandPalette | Some m \<Rightarrow> m)"

text \<open>The handler \<open>create\<close> registers: it drops the accessor and passes the arguments on.\<close>

definition forwardingHandler :: "('arg, 'res) ICommand \<Rightarrow> 'acc \<Rightarrow> 'arg list \<Rightarrow> 'res command_result" where
  "forwardingHandler command = (\<lambda>accessor args. HandlerResult (handler command args))"

text \<open>The handler of the built-in command: \<open>() => (options._tarballProxyEndpoints ?? {})\<close>.\<close>

definition tarballHandler ::
  "('arg, 'res) IWorkbenchConstructionOptions \<Rightarrow> 'acc \<Rightarrow> 'arg list \<Rightarrow> 'res command_result" where
  "tarballHandler options =
     (\<lambda>accessor args. Endpoints (case tarballProxyEndpoints options of None \<Rightarrow> [] | Some e \<Rightarrow> e))"

text \<open>
  The body of the loop \<open>for (const command of options.commands)\<close>; an exception of
  \<open>registerCommand\<close> leaves it before the menu items.
\<close>

definition registerOne ::
  "('arg, 'res) ICommand \<Rightarrow> ('acc, 'arg, 'res) web_state \<Rightarrow> error + ('acc, 'arg, 'res) web_state" where
  "registerOne command st =
     (case registerCommand (cmd_id command) (forwardingHandler command) st of
        Inl e \<Rightarrow> Inl e
      | Inr st1 \<Rightarrow>
          Inr (if truthy_string (label command)
               then fold (\<lambda>m. appendMenuItem (asMenuId m) (cmd_id command) (the (label command)))
                      (menusOf command) st1
               else st1))"

text \<open>
  The loop itself. Nothing catches an exception, so the first one ends the loop, and
  \<open>create\<close> with it; what was registered before stays registered.
\<close>

fun registerCommands ::
  "('arg, 'res) ICommand list \<Rightarrow> ('acc, 'arg, 'res) web_state
     \<Rightarrow> (error + unit) \<times> ('acc, 'arg, 'res) web_state" where
  "registerCommands [] st = (Inr (), st)"
| "registerCommands (command # rest) st =
     (case registerOne command st of
        Inl e \<Rightarrow> (Inl e, st)
      | Inr st1 \<Rightarrow> registerCommands rest st1)"

text \<open>
  \<open>create\<close> returns the exception or nothing (the disposable is not modelled), and the
  state it leaves.
\<close>

definition create ::
  "nat \<Rightarrow> ('arg, 'res) IWorkbenchConstructionOptions \<Rightarrow> ('acc, 'arg, 'res) web_state
     \<Rightarrow> (error + unit) \<times> ('acc, 'arg, 'res) web_state" where
  "create domElement options st =
     (let st0 = st\<lparr>marks := marks st @ [''code/didLoadWorkbenchMain'']\<rparr>
      in if created st0
         then (Inl (Error ''Unable to create the VSCode workbench more than once.''), st0)
         else
           let st1 = st0\<lparr>created := True\<rparr>
           in case (case commands options of
                      None \<Rightarrow> (Inr (), st1)
                    | Some cs \<Rightarrow> registerCommands cs st1) of
                (Inl e, st2) \<Rightarrow> (Inl e, st2)
              | (Inr u, st2) \<Rightarrow>
                  (case registerCommand ''_workbench.getTarballProxyEndpoints''
                          (tarballHandler options) st2 of
                     Inl e \<Rightarrow> (Inl e, st2)
                   | Inr st3 \<Rightarrow>
                       (Inr (), st3\<lparr>workbenches := workbenches st3 @ [(domElement, options)]\<rparr>)))"

section \<open>The search-result model and the tree control\<close>

text \<open>
  The renderable matches of the search model: a line match with its range and preview
  lines, a file match with its resource and its matches, a folder match (of one of the
  four classes \<open>FolderMatch\<close>, \<open>FolderMatchNoRoot\<close>, \<open>FolderMatchWithResource\<close>,
  \<open>FolderMatchWorkspaceRoot\<close>) with its file and folder matches. The first component of
  each is the identity of the object, so that equality of values is \<open>===\<close> of objects.
  Line and column numbers are the editor's positive integers.
\<close>

record Range =
  startLineNumber :: nat
  startColumn :: nat
  endLineNumber :: nat
  endColumn :: nat

datatype match = Match (match_id: nat) (range_of: Range) (fullPreviewLines: "string list")

datatype file_match = FileMatch (file_id: nat) (file_resource: string) (file_matches: "match list")

datatype folder_class =
  FolderMatchBase | FolderMatchNoRoot | FolderMatchWithResource | FolderMatchWorkspaceRoot

datatype folder_match =
  FolderMatch (folder_id: nat) (folder_class: folder_class) (folder_resource: "string option")
    (folder_matches: "folder_child list")
and folder_child = FileChild file_match | FolderChild folder_match

datatype renderable = RMatch match | RFile file_match | RFolder folder_match

fun renderableOfChild :: "folder_child \<Rightarrow> renderable" where
  "renderableOfChild (FileChild f) = RFile f"
| "renderableOfChild (FolderChild f) = RFolder f"

text \<open>The \<open>instanceof\<close> tests of the source.\<close>

fun isMatch :: "renderable \<Rightarrow> bool" where
  "isMatch (RMatch m) = True"
| "isMatch r = False"

fun isFileMatch :: "renderable \<Rightarrow> bool" where
  "isFileMatch (RFile f) = True"
| "isFileMatch r = False"

fun isFolderMatch :: "renderable \<Rightarrow> bool" where
  "isFolderMatch (RFolder f) = True"
| "isFolderMatch r = False"

fun isFolderMatchWithResource :: "renderable \<Rightarrow> bool" where
  "isFolderMatchWithResource (RFolder f) =
     (folder_class f = FolderMatchWithResource \<or> folder_class f = FolderMatchWorkspaceRoot)"
| "isFolderMatchWithResource r = False"

text \<open>The property \<open>resource\<close>; a line match has none.\<close>

fun resource :: "renderable \<Rightarrow> string option" where
  "resource (RMatch m) = None"
| "resource (RFile f) = Some (file_resource f)"
| "resource (RFolder f) = folder_resource f"

text \<open>
  The tree control shows a forest of nodes, each collapsed or expanded; its selection may
  hold \<open>null\<close>. \<open>revealed\<close> logs the calls of \<open>reveal\<close>, \<open>domFocused\<close> counts those of
  \<open>domFocus\<close>.
\<close>

datatype tnode = TNode (node_element: renderable) (node_collapsed: bool) (node_children: "tnode list")

record viewer =
  tree :: "tnode list"
  selection :: "renderable option list"
  focus :: "renderable list"
  revealed :: "renderable list"
  domFocused :: nat

definition getSelection :: "viewer \<Rightarrow> renderable option list" where
  "getSelection v = selection v"

text \<open>
  \<open>Array.prototype.sort\<close> with a comparator is stable; it is the stable insertion sort,
  which every stable sort agrees with when the comparator is a total preorder.
\<close>

fun insert_by :: "('a \<Rightarrow> 'a \<Rightarrow> int) \<Rightarrow> 'a \<Rightarrow> 'a list \<Rightarrow> 'a list" where
  "insert_by cmp x [] = [x]"
| "insert_by cmp x (y # ys) = (if cmp x y \<le> 0 then x # y # ys else y # insert_by cmp x ys)"

definition js_sort :: "('a \<Rightarrow> 'a \<Rightarrow> int) \<Rightarrow> 'a list \<Rightarrow> 'a list" where
  "js_sort cmp xs = foldr (insert_by cmp) xs []"

text \<open>\<open>filter((x): x is RenderableMatch => x !== null)\<close>.\<close>

fun filterNonNull :: "'a option list \<Rightarrow> 'a list" where
  "filterNonNull [] = []"
| "filterNonNull (None # xs) = filterNonNull xs"
| "filterNonNull (Some x # xs) = x # filterNonNull xs"

section \<open>getElementsToOperateOnInfo\<close>

text \<open>
  \<open>searchComparer\<close> belongs to the search model and is a parameter, as is the configured
  \<open>sortOrder\<close>. The result is the pair \<open>(elements, mustReselect)\<close>.
\<close>

definition getElementsToOperateOnInfo ::
  "(renderable \<Rightarrow> renderable \<Rightarrow> 'o \<Rightarrow> int) \<Rightarrow> viewer \<Rightarrow> renderable \<Rightarrow> 'o
     \<Rightarrow> renderable list \<times> bool" where
  "getElementsToOperateOnInfo searchComparer v currElement sortOrder =
     (let elements = js_sort (\<lambda>a b. searchComparer a b sortOrder) (filterNonNull (getSelection v));
          mustReselect = (currElement \<in> set elements);
          elements = (if \<not> (length elements > 1 \<and> currElement \<in> set elements)
                      then [currElement] else elements)
      in (elements, mustReselect))"

section \<open>Copying matches as text\<close>

text \<open>
  \<open>String.prototype.repeat\<close> throws a \<open>RangeError\<close> on a negative count; \<open>join\<close> is
  \<open>Array.prototype.join\<close>; \<open>numberToString\<close> is the decimal notation of a line or column
  number.
\<close>

definition js_repeat :: "string \<Rightarrow> int \<Rightarrow> error + string" where
  "js_repeat s n = (if n < 0 then Inl (Error ''RangeError: Invalid count value'')
                    else Inr (concat (replicate (nat n) s)))"

fun join :: "string \<Rightarrow> string list \<Rightarrow> string" where
  "join sep [] = []"
| "join sep [x] = x"
| "join sep (x # y # ys) = x @ sep @ join sep (y # ys)"

definition digit :: "nat \<Rightarrow> char" where
  "digit d = char_of (48 + d)"

fun numberToString :: "nat \<Rightarrow> string" where
  "numberToString n = (if n < 10 then [digit n] else numberToString (n div 10) @ [digit (n mod 10)])"

text \<open>An exception in a \<open>map\<close> callback ends the \<open>map\<close>: the first error wins.\<close>

fun sequence_results :: "(error + 'a) list \<Rightarrow> error + 'a list" where
  "sequence_results [] = Inr []"
| "sequence_results (x # xs) =
     (case x of
        Inl e \<Rightarrow> Inl e
      | Inr v \<Rightarrow> (case sequence_results xs of Inl e \<Rightarrow> Inl e | Inr vs \<Rightarrow> Inr (v # vs)))"

definition getFirstLinePrefix :: "match \<Rightarrow> string" where
  "getFirstLinePrefix m =
     numberToString (startLineNumber (range_of m)) @ '','' @ numberToString (startColumn (range_of m))"

definition getOtherLinePrefix :: "match \<Rightarrow> nat \<Rightarrow> string" where
  "getOtherLinePrefix m i = numberToString (startLineNumber (range_of m) + i)"

text \<open>\<open>const prefix = i === 0 ? getFirstLinePrefix() : getOtherLinePrefix(i)\<close>.\<close>

definition linePrefix :: "match \<Rightarrow> nat \<Rightarrow> string" where
  "linePrefix m i = (if i = 0 then getFirstLinePrefix m else getOtherLinePrefix m i)"

text \<open>The \<open>reduce\<close> over the preview lines and their indices, starting from 0.\<close>

definition largestPrefixSize :: "match \<Rightarrow> nat" where
  "largestPrefixSize m =
     fold (\<lambda>i largest.
             let thisSize = (if i = 0 then length (getFirstLinePrefix m)
                             else length (getOtherLinePrefix m i))
             in max thisSize largest)
       [0..<length (fullPreviewLines m)] 0"

text \<open>The callback of \<open>fullMatchLines.map((line, i) => ...)\<close>.\<close>

definition formatLine :: "match \<Rightarrow> int \<Rightarrow> nat \<times> string \<Rightarrow> error + string" where
  "formatLine m indent = (\<lambda>(i, line).
     let prefix = (if i = 0 then getFirstLinePrefix m else getOtherLinePrefix m i)
     in case js_repeat '' '' (int (largestPrefixSize m) - int (length prefix)) of
          Inl e \<Rightarrow> Inl e
        | Inr paddingStr \<Rightarrow>
            (case js_repeat '' '' indent of
               Inl e \<Rightarrow> Inl e
             | Inr indentStr \<Rightarrow> Inr (indentStr @ prefix @ '': '' @ paddingStr @ line)))"

definition matchToString :: "match \<Rightarrow> int \<Rightarrow> error + string" where
  "matchToString m indent =
     (case sequence_results (map (formatLine m indent) (enumerate 0 (fullPreviewLines m))) of
        Inl e \<Rightarrow> Inl e
      | Inr formattedLines \<Rightarrow> Inr (join [CHR 0x0A] formattedLines))"

text \<open>Sorting keeps the elements: needed for the recursion through a sorted array.\<close>

lemma set_insert_by: "set (insert_by cmp x ys) = insert x (set ys)"
  by (induction ys) auto

lemma set_js_sort: "set (js_sort cmp xs) = set xs"
  by (induction xs) (simp_all add: js_sort_def set_insert_by)

text \<open>
  What the copy commands take from the host: the platform, the label service and the
  comparator \<open>searchMatchComparer\<close> of the search model.
\<close>

record copy_env =
  isWindows :: bool
  getUriLabel :: "string option \<Rightarrow> string"
  searchMatchComparer :: "renderable \<Rightarrow> renderable \<Rightarrow> int"

definition lineDelimiter :: "copy_env \<Rightarrow> string" where
  "lineDelimiter env = (if isWindows env then [CHR 0x0D, CHR 0x0A] else [CHR 0x0A])"

text \<open>The result of the next three functions is the pair \<open>(text, count)\<close>.\<close>

definition fileMatchToString :: "copy_env \<Rightarrow> file_match \<Rightarrow> error + string \<times> nat" where
  "fileMatchToString env fileMatch =
     (case sequence_results
             (map (\<lambda>m. matchToString m 2)
                (js_sort (\<lambda>a b. searchMatchComparer env (RMatch a) (RMatch b))
                   (file_matches fileMatch))) of
        Inl e \<Rightarrow> Inl e
      | Inr matchTextRows \<Rightarrow>
          Inr (getUriLabel env (Some (file_resource fileMatch)) @ lineDelimiter env
                 @ join (lineDelimiter env) matchTextRows,
               length matchTextRows))"

function folderMatchToString :: "copy_env \<Rightarrow> folder_match \<Rightarrow> error + string \<times> nat"
  and fileFolderMatchToString :: "copy_env \<Rightarrow> folder_child \<Rightarrow> error + string \<times> nat" where
  "folderMatchToString env (FolderMatch i c r ms) =
     (case sequence_results
             (map (fileFolderMatchToString env)
                (js_sort (\<lambda>a b. searchMatchComparer env (renderableOfChild a) (renderableOfChild b)) ms)) of
        Inl e \<Rightarrow> Inl e
      | Inr results \<Rightarrow>
          Inr (join (lineDelimiter env @ lineDelimiter env) (map fst results),
               sum_list (map snd results)))"
| "fileFolderMatchToString env (FileChild f) = fileMatchToString env f"
| "fileFolderMatchToString env (FolderChild f) = folderMatchToString env f"
  by pat_completeness auto
termination
proof (relation "measure (\<lambda>x. case x of Inl (env, f) \<Rightarrow> size f | Inr (env, c) \<Rightarrow> size c)")
  show "wf (measure (\<lambda>x. case x of Inl (env, f) \<Rightarrow> size f | Inr (env, c) \<Rightarrow> size c))"
    by simp
next
  fix env i c r ms x
  assume "x \<in> set (js_sort (\<lambda>a b. searchMatchComparer env (renderableOfChild a) (renderableOfChild b)) ms)"
  then have "x \<in> set ms" by (simp add: set_js_sort)
  then have "size x \<le> size_list size ms" by (simp add: size_list_estimation')
  then show "(Inr (env, x), Inl (env, FolderMatch i c r ms))
          \<in> measure (\<lambda>x. case x of Inl (env, f) \<Rightarrow> size f | Inr (env, c) \<Rightarrow> size c)"
    by simp
next
  fix env f
  show "(Inl (env, f), Inr (env, FolderChild f))
          \<in> measure (\<lambda>x. case x of Inl (env, f) \<Rightarrow> size f | Inr (env, c) \<Rightarrow> size c)"
    by simp
qed


section \<open>The command handlers\<close>

text \<open>
  The part of the host the handlers see: the tree control, the active search view if
  there is one (\<open>viewsService.getActiveViewWithId(VIEW_ID)\<close>) with the log of the calls
  made to it, the texts written to the clipboard, the resource of the active editor if
  there is one, and the logs of the calls \<open>viewlet.open\<close> and
  \<open>replaceService.openReplacePreview\<close>. \<open>'m\<close> is the search-result model.
\<close>

datatype view_call = ToggleCaseSensitive

record 'm search_view =
  isTreeLayoutViewVisible :: bool
  searchResult :: 'm
  view_calls :: "view_call list"

record 'm world =
  viewer :: viewer
  searchView :: "'m search_view option"
  clipboard :: "string list"
  activeEditorResource :: "string option"
  opened :: "(renderable \<times> bool) list"
  replacePreviews :: "(renderable \<times> bool) list"

definition getSearchView :: "'m world \<Rightarrow> 'm search_view option" where
  "getSearchView w = searchView w"


definition getSelectedRow :: "'m world \<Rightarrow> renderable option" where
  "getSelectedRow w =
     (case getSearchView w of
        None \<Rightarrow> None
      | Some sv \<Rightarrow> (case getSelection (viewer w) of [] \<Rightarrow> None | x # xs \<Rightarrow> x))"

definition writeText :: "string \<Rightarrow> 'm world \<Rightarrow> 'm world" where
  "writeText text w = w\<lparr>clipboard := clipboard w @ [text]\<rparr>"

definition copyPathCommand :: "copy_env \<Rightarrow> renderable option \<Rightarrow> 'm world \<Rightarrow> 'm world" where
  "copyPathCommand env fileMatch w =
     (case fileMatch of
        None \<Rightarrow>
          (case getSelectedRow w of
             None \<Rightarrow> w
           | Some row \<Rightarrow>
               if \<not> (isFileMatch row \<or> isFolderMatchWithResource row) then w
               else writeText (getUriLabel env (resource row)) w)
      | Some f \<Rightarrow> writeText (getUriLabel env (resource f)) w)"

definition copyMatchCommand :: "copy_env \<Rightarrow> renderable option \<Rightarrow> 'm world \<Rightarrow> error + 'm world" where
  "copyMatchCommand env match w =
     (case (case match of None \<Rightarrow> getSelectedRow w | Some m \<Rightarrow> Some m) of
        None \<Rightarrow> Inr w
      | Some m \<Rightarrow>
          (case (case m of
                   RMatch x \<Rightarrow> matchToString x 0
                 | RFile f \<Rightarrow> map_sum id fst (fileMatchToString env f)
                 | RFolder f \<Rightarrow> map_sum id fst (folderMatchToString env f)) of
             Inl e \<Rightarrow> Inl e
           | Inr text \<Rightarrow> if text \<noteq> [] then Inr (writeText text w) else Inr w))"

section \<open>The tree control: rows, navigator, expansion\<close>

text \<open>
  Modelled from the spec: the tree widget (\<open>WorkbenchObjectTree\<close>) and its navigator
  (\<open>ITreeNavigator\<close>) are imported by the module and not part of it, and the
  specification only says that the excerpt "reads/traverses" the tree of renderable
  matches "via a navigator". The contract taken here is the widget's: the control shows
  the rows of its forest in preorder, the children of a collapsed node being hidden; a
  navigator is an index into the rows as they are at the time of each call, \<open>current\<close>
  being \<open>null\<close> outside the rows, \<open>next\<close> and \<open>previous\<close> moving the index by one;
  \<open>navigate(start)\<close> starts at the row of \<open>start\<close>, at \<open>-1\<close> when \<open>start\<close> is hidden
  or not given, and throws when \<open>start\<close> is not in the tree; \<open>expand\<close> shows the children
  of a node and \<open>isCollapsed\<close> reads its state. The elements of a tree are distinct
  objects, so at most one node carries a given element; \<open>expandNode\<close> and
  \<open>nodeCollapsed\<close> find it by equality.
\<close>

fun rows :: "tnode \<Rightarrow> renderable list" where
  "rows (TNode x c ch) = x # (if c then [] else concat (map rows ch))"

definition visibleRows :: "tnode list \<Rightarrow> renderable list" where
  "visibleRows t = concat (map rows t)"

fun elements :: "tnode \<Rightarrow> renderable list" where
  "elements (TNode x c ch) = x # concat (map elements ch)"

definition allElements :: "tnode list \<Rightarrow> renderable list" where
  "allElements t = concat (map elements t)"

fun expandNode :: "renderable \<Rightarrow> tnode \<Rightarrow> tnode" where
  "expandNode e (TNode x c ch) = TNode x (if x = e then False else c) (map (expandNode e) ch)"

definition expandTree :: "renderable \<Rightarrow> tnode list \<Rightarrow> tnode list" where
  "expandTree e t = map (expandNode e) t"

fun nodeCollapsed :: "renderable \<Rightarrow> tnode \<Rightarrow> bool" where
  "nodeCollapsed e (TNode x c ch) = ((x = e \<and> c) \<or> list_ex (nodeCollapsed e) ch)"

definition treeCollapsed :: "tnode list \<Rightarrow> renderable \<Rightarrow> bool" where
  "treeCollapsed t e = list_ex (nodeCollapsed e) t"

definition current :: "renderable list \<Rightarrow> int \<Rightarrow> renderable option" where
  "current rs i = (if i < 0 \<or> int (length rs) \<le> i then None else Some (rs ! nat i))"

fun indexOf :: "'a \<Rightarrow> 'a list \<Rightarrow> int" where
  "indexOf e [] = -1"
| "indexOf e (x # xs) = (if x = e then 0 else let i = indexOf e xs in if i < 0 then -1 else i + 1)"

text \<open>Expansion keeps the elements and the rows are among them: the loop below ends.\<close>

lemma elements_expandNode: "elements (expandNode e n) = elements n"
  by (induction n) (simp add: map_idI cong: map_cong)

lemma allElements_expandTree: "allElements (expandTree e t) = allElements t"
  by (simp add: allElements_def expandTree_def elements_expandNode cong: map_cong)

lemma length_rows_le: "length (rows n) \<le> length (elements n)"
proof (induction n)
  case (TNode x c ch)
  have "length (concat (map rows ch)) \<le> length (concat (map elements ch))"
    using TNode by (induction ch) (simp_all add: add_mono)
  then show ?case by simp
qed

lemma length_visibleRows_le: "length (visibleRows t) \<le> length (allElements t)"
  unfolding visibleRows_def allElements_def
  by (induction t) (simp_all add: add_mono length_rows_le)

text \<open>
  \<open>while (!!navigator.next() && !(navigator.current() instanceof K)) { }\<close>, from index
  \<open>i\<close>: the index the navigator ends at.
\<close>

function nextUntil :: "(renderable \<Rightarrow> bool) \<Rightarrow> renderable list \<Rightarrow> int \<Rightarrow> int" where
  "nextUntil stop rs i =
     (case current rs (i + 1) of
        None \<Rightarrow> i + 1
      | Some x \<Rightarrow> if stop x then i + 1 else nextUntil stop rs (i + 1))"
  by pat_completeness auto
termination
  by (relation "measure (\<lambda>(stop, rs, i). nat (int (length rs) - i))")
     (auto simp: current_def split: if_splits)

text \<open>
  \<open>while (navigator.next() && !(navigator.current() instanceof Match))
  { viewer.expand(navigator.current()); }\<close>: the tree and the index it ends with.
\<close>

function nextMatchExpanding :: "tnode list \<Rightarrow> int \<Rightarrow> tnode list \<times> int" where
  "nextMatchExpanding t i =
     (case current (visibleRows t) (i + 1) of
        None \<Rightarrow> (t, i + 1)
      | Some x \<Rightarrow> if isMatch x then (t, i + 1) else nextMatchExpanding (expandTree x t) (i + 1))"
  by pat_completeness auto
termination
proof (relation "measure (\<lambda>(t, i). nat (int (length (allElements t)) - i))")
  show "wf (measure (\<lambda>(t, i). nat (int (length (allElements t)) - i)))"
    by simp
next
  fix t i x
  assume "current (visibleRows t) (i + 1) = Some x"
  then have "i + 1 < int (length (visibleRows t))"
    by (simp add: current_def split: if_splits)
  with length_visibleRows_le [of t] have "i + 1 < int (length (allElements t))"
    by linarith
  then show "((expandTree x t, i + 1), (t, i))
      \<in> measure (\<lambda>(t, i). nat (int (length (allElements t)) - i))"
    by (simp add: allElements_expandTree)
qed

declare nextUntil.simps [simp del] nextMatchExpanding.simps [simp del]

section \<open>AbstractSearchAndReplaceAction: the element to focus after a removal\<close>

definition navigate :: "viewer \<Rightarrow> renderable \<Rightarrow> error + int" where
  "navigate v start =
     (if start \<in> set (allElements (tree v))
      then Inr (indexOf start (visibleRows (tree v)))
      else Inl (Error ''TreeError: Tree element not found''))"

definition expand :: "renderable \<Rightarrow> viewer \<Rightarrow> viewer" where
  "expand e v = v\<lparr>tree := expandTree e (tree v)\<rparr>"

definition isCollapsed :: "viewer \<Rightarrow> renderable \<Rightarrow> bool" where
  "isCollapsed v e = treeCollapsed (tree v) e"

text \<open>
  \<open>getNextElementAfterRemoved\<close> returns \<open>navigator.current()\<close> after one of its three loops,
  together with the control, which the third loop expands; \<open>navigate\<close> is the only call
  that can throw, and it comes first, so an exception leaves the control as it was.
\<close>

definition getNextElementAfterRemoved ::
  "viewer \<Rightarrow> renderable \<Rightarrow> error + renderable option \<times> viewer" where
  "getNextElementAfterRemoved v element =
     (case navigate v element of
        Inl err \<Rightarrow> Inl err
      | Inr i \<Rightarrow>
          if isFolderMatch element then
            Inr (current (visibleRows (tree v)) (nextUntil isFolderMatch (visibleRows (tree v)) i), v)
          else if isFileMatch element then
            Inr (current (visibleRows (tree v)) (nextUntil isFileMatch (visibleRows (tree v)) i), v)
          else
            (case nextMatchExpanding (tree v) i of
               (t', j) \<Rightarrow> Inr (current (visibleRows t') j, v\<lparr>tree := t'\<rparr>)))"

text \<open>
  What the module reads from the search model's objects: \<open>parent()\<close> of each class (the
  parent of a folder match may be the \<open>SearchResult\<close>, here \<open>None\<close>), \<open>closestRoot\<close>
  (which may be \<open>null\<close>), and \<open>id()\<close> of a file match. They are parameters.
\<close>

record model_api =
  match_parent :: "match \<Rightarrow> file_match"
  file_parent :: "file_match \<Rightarrow> folder_match"
  folder_parent :: "folder_match \<Rightarrow> folder_match option"
  file_closestRoot :: "file_match \<Rightarrow> folder_match option"
  folder_closestRoot :: "folder_match \<Rightarrow> folder_match option"
  file_idString :: "file_match \<Rightarrow> string"

text \<open>What \<open>getVisibleParent\<close> returns: \<open>FileMatch | FolderMatch | SearchResult | null\<close>.\<close>

datatype parent_ref = PFile file_match | PFolder folder_match | PSearchResult | PNull

fun getVisibleParent :: "model_api \<Rightarrow> renderable \<Rightarrow> bool \<Rightarrow> parent_ref" where
  "getVisibleParent api (RMatch m) isTreeViewVisible = PFile (match_parent api m)"
| "getVisibleParent api (RFile f) isTreeViewVisible =
     (if isTreeViewVisible then PFolder (file_parent api f)
      else case file_closestRoot api f of None \<Rightarrow> PNull | Some r \<Rightarrow> PFolder r)"
| "getVisibleParent api (RFolder f) isTreeViewVisible =
     (if isTreeViewVisible
      then (case folder_parent api f of None \<Rightarrow> PSearchResult | Some p \<Rightarrow> PFolder p)
      else case folder_closestRoot api f of None \<Rightarrow> PNull | Some r \<Rightarrow> PFolder r)"

text \<open>\<open>parent === previousElement\<close>, the second being a row or \<open>null\<close>.\<close>

fun sameObject :: "parent_ref \<Rightarrow> renderable option \<Rightarrow> bool" where
  "sameObject (PFile f) (Some (RFile g)) = (f = g)"
| "sameObject (PFolder f) (Some (RFolder g)) = (f = g)"
| "sameObject PNull None = True"
| "sameObject p r = False"

text \<open>
  Each of the last two \<open>if\<close> blocks of \<open>getPreviousElementAfterRemoved\<close>, on the control,
  the navigator's index and \<open>previousElement\<close>: \<open>navigator.next()\<close>,
  \<open>viewer.expand(previousElement)\<close>, \<open>previousElement = navigator.previous()\<close>.
\<close>

definition expandAndStepBack ::
  "(renderable \<Rightarrow> bool) \<Rightarrow> renderable \<Rightarrow> viewer \<times> int \<times> renderable option
     \<Rightarrow> viewer \<times> int \<times> renderable option" where
  "expandAndStepBack isKind element = (\<lambda>(v, i, previousElement).
     case previousElement of
       None \<Rightarrow> (v, i, previousElement)
     | Some p \<Rightarrow>
         if isMatch element \<and> isKind p then
           let i1 = i + 1;
               v1 = expand p v;
               i2 = i1 - 1
           in (v1, i2, current (visibleRows (tree v1)) i2)
         else (v, i, previousElement))"

text \<open>
  The first three steps of \<open>getPreviousElementAfterRemoved\<close>: one step back from the
  element, one more when that row is the visible parent, and one more when the parent is
  a file match and that row is the parent's visible parent. The result is the index and
  \<open>previousElement\<close>.
\<close>

definition stepBackPastParents ::
  "model_api \<Rightarrow> renderable list \<Rightarrow> renderable \<Rightarrow> bool \<Rightarrow> int \<Rightarrow> int \<times> renderable option" where
  "stepBackPastParents api rs elem isTreeViewVisible i0 =
     (let i1 = i0 - 1;
          previousElement = current rs i1;
          parent = getVisibleParent api elem isTreeViewVisible;
          (i2, previousElement) =
             (if sameObject parent previousElement then (i1 - 1, current rs (i1 - 1))
              else (i1, previousElement))
      in case parent of
           PFile pf \<Rightarrow>
             if sameObject (getVisibleParent api (RFile pf) isTreeViewVisible) previousElement
             then (i2 - 1, current rs (i2 - 1))
             else (i2, previousElement)
         | _ \<Rightarrow> (i2, previousElement))"

definition getPreviousElementAfterRemoved ::
  "model_api \<Rightarrow> viewer \<Rightarrow> renderable \<Rightarrow> bool \<Rightarrow> error + renderable option \<times> viewer" where
  "getPreviousElementAfterRemoved api v elem isTreeViewVisible =
     (case navigate v elem of
        Inl err \<Rightarrow> Inl err
      | Inr i0 \<Rightarrow>
          (case stepBackPastParents api (visibleRows (tree v)) elem isTreeViewVisible i0 of
             (i3, previousElement) \<Rightarrow>
               (case expandAndStepBack isFileMatch elem
                       (expandAndStepBack isFolderMatch elem (v, i3, previousElement)) of
                  (v5, i5, previousElement) \<Rightarrow> Inr (previousElement, v5))))"

definition getElementToFocusAfterRemoved ::
  "model_api \<Rightarrow> viewer \<Rightarrow> renderable \<Rightarrow> bool \<Rightarrow> error + renderable option \<times> viewer" where
  "getElementToFocusAfterRemoved api v elementToRemove isTreeViewVisible =
     (case getNextElementAfterRemoved v elementToRemove of
        Inl err \<Rightarrow> Inl err
      | Inr (elementToFocus, v') \<Rightarrow>
          (case elementToFocus of
             Some x \<Rightarrow> Inr (Some x, v')
           | None \<Rightarrow> getPreviousElementAfterRemoved api v' elementToRemove isTreeViewVisible))"

text \<open>
  In the specification's words: an element of the same kind as \<open>e\<close>, and the place of an
  element among the rows.
\<close>

definition sameKind :: "renderable \<Rightarrow> renderable \<Rightarrow> bool" where
  "sameKind e x =
     (if isFolderMatch e then isFolderMatch x else if isFileMatch e then isFileMatch x else isMatch x)"

definition position :: "renderable \<Rightarrow> viewer \<Rightarrow> nat" where
  "position e v = nat (indexOf e (visibleRows (tree v)))"

section \<open>RemoveAction and ReplaceActionRunner\<close>

text \<open>
  What the two actions take from the host and the search model: the parent lookups, the
  comparator and the configured sort order and \<open>useReplacePreview\<close>, the helper
  \<open>arrayContainsElementOrParent\<close>, the two operations \<open>batchRemove\<close> and \<open>batchReplace\<close> of
  the search-result model \<open>'m\<close>, and the URI comparison of the identity service. All are
  parameters.
\<close>

record ('m, 'o) action_env =
  env_api :: model_api
  env_searchComparer :: "renderable \<Rightarrow> renderable \<Rightarrow> 'o \<Rightarrow> int"
  env_sortOrder :: 'o
  env_useReplacePreview :: bool
  env_arrayContainsElementOrParent :: "renderable \<Rightarrow> renderable list \<Rightarrow> bool"
  env_batchRemove :: "renderable list \<Rightarrow> 'm \<Rightarrow> 'm"
  env_batchReplace :: "renderable list \<Rightarrow> 'm \<Rightarrow> 'm"
  env_isEqual :: "string \<Rightarrow> string \<Rightarrow> bool"

text \<open>The calls on the tree control; the keyboard event passed along is not modelled.\<close>

definition reveal :: "renderable \<Rightarrow> viewer \<Rightarrow> viewer" where
  "reveal e v = v\<lparr>revealed := revealed v @ [e]\<rparr>"

definition setFocus :: "renderable list \<Rightarrow> viewer \<Rightarrow> viewer" where
  "setFocus es v = v\<lparr>focus := es\<rparr>"

definition setSelection :: "renderable list \<Rightarrow> viewer \<Rightarrow> viewer" where
  "setSelection es v = v\<lparr>selection := map Some es\<rparr>"

definition domFocus :: "viewer \<Rightarrow> viewer" where
  "domFocus v = v\<lparr>domFocused := domFocused v + 1\<rparr>"

text \<open>\<open>searchView?.isTreeLayoutViewVisible ?? false\<close>.\<close>

definition treeLayoutVisible :: "'m world \<Rightarrow> bool" where
  "treeLayoutVisible w =
     (case getSearchView w of None \<Rightarrow> False | Some sv \<Rightarrow> isTreeLayoutViewVisible sv)"

text \<open>
  The loop \<open>for (const currentElement of elementsToRemove)\<close> of \<open>RemoveAction.run\<close>, on the
  elements still to visit; it ends at the first element to focus that is not itself
  removed. An exception ends it. The result is the exception, if any, and the control.
\<close>

fun reselectBeforeRemove ::
  "('m, 'o) action_env \<Rightarrow> bool \<Rightarrow> renderable list \<Rightarrow> renderable list \<Rightarrow> viewer
     \<Rightarrow> error option \<times> viewer" where
  "reselectBeforeRemove env tv elementsToRemove [] v = (None, v)"
| "reselectBeforeRemove env tv elementsToRemove (currentElement # rest) v =
     (case (if env_arrayContainsElementOrParent env currentElement elementsToRemove
            then getElementToFocusAfterRemoved (env_api env) v currentElement tv
            else Inr (None, v)) of
        Inl err \<Rightarrow> (Some err, v)
      | Inr (nextFocusElement, v1) \<Rightarrow>
          (case nextFocusElement of
             None \<Rightarrow> reselectBeforeRemove env tv elementsToRemove rest v1
           | Some n \<Rightarrow>
               if \<not> env_arrayContainsElementOrParent env n elementsToRemove
               then (None, setSelection [n] (setFocus [n] (reveal n v1)))
               else reselectBeforeRemove env tv elementsToRemove rest v1))"

text \<open>
  \<open>RemoveAction.run\<close> for the action's element \<open>elem\<close>. The control of the action is the
  control of the host. The result is the exception, if any, and the host.
\<close>

definition RemoveAction_run ::
  "('m, 'o) action_env \<Rightarrow> renderable \<Rightarrow> 'm world \<Rightarrow> error option \<times> 'm world" where
  "RemoveAction_run env elem w =
     (case getElementsToOperateOnInfo (env_searchComparer env) (viewer w) elem (env_sortOrder env) of
        (elementsToRemove, mustReselect) \<Rightarrow>
          if length elementsToRemove = 0 then (None, w)
          else
            (case (if mustReselect
                   then reselectBeforeRemove env (treeLayoutVisible w) elementsToRemove
                          elementsToRemove (viewer w)
                   else (None, viewer w)) of
               (Some err, v1) \<Rightarrow> (Some err, w\<lparr>viewer := v1\<rparr>)
             | (None, v1) \<Rightarrow>
                 let w1 = w\<lparr>viewer := v1\<rparr>;
                     w2 = (case getSearchView w1 of
                             None \<Rightarrow> w1
                           | Some sv \<Rightarrow>
                               w1\<lparr>searchView := Some (sv\<lparr>searchResult :=
                                     env_batchRemove env elementsToRemove (searchResult sv)\<rparr>)\<rparr>)
                 in (None, w2\<lparr>viewer := domFocus (viewer w2)\<rparr>)))"

text \<open>\<open>Position.isBeforeOrEqual\<close> on the start positions of two ranges.\<close>

definition isBeforeOrEqual :: "Range \<Rightarrow> Range \<Rightarrow> bool" where
  "isBeforeOrEqual a b =
     (if startLineNumber a < startLineNumber b then True
      else if startLineNumber b < startLineNumber a then False
      else startColumn a \<le> startColumn b)"

text \<open>
  The body of the \<open>do ... while\<close> loop of \<open>getElementToFocusAfterReplace\<close>: whether it
  breaks, and \<open>fileMatched\<close> after it.
\<close>

definition replaceLoopBody ::
  "model_api \<Rightarrow> viewer \<Rightarrow> match \<Rightarrow> renderable option \<Rightarrow> bool \<Rightarrow> bool \<times> bool" where
  "replaceLoopBody api v currElement elementToFocus fileMatched =
     (case elementToFocus of
        Some (RMatch m) \<Rightarrow>
          if file_idString api (match_parent api m) = file_idString api (match_parent api currElement)
          then (isBeforeOrEqual (range_of currElement) (range_of m), True)
          else (fileMatched, fileMatched)
      | Some other \<Rightarrow> (fileMatched \<and> isCollapsed v other, fileMatched)
      | None \<Rightarrow> (False, fileMatched))"

text \<open>
  The loop from the navigator's index \<open>i\<close>: it returns \<open>elementToFocus\<close> at a \<open>break\<close> or
  when \<open>navigator.next()\<close> is \<open>null\<close>. The navigator starts before the first row.
\<close>

function focusAfterReplaceLoop ::
  "model_api \<Rightarrow> viewer \<Rightarrow> match \<Rightarrow> int \<Rightarrow> bool \<Rightarrow> renderable option" where
  "focusAfterReplaceLoop api v currElement i fileMatched =
     (let elementToFocus = current (visibleRows (tree v)) i in
      case replaceLoopBody api v currElement elementToFocus fileMatched of
        (True, fileMatched') \<Rightarrow> elementToFocus
      | (False, fileMatched') \<Rightarrow>
          (case current (visibleRows (tree v)) (i + 1) of
             None \<Rightarrow> elementToFocus
           | Some nextRow \<Rightarrow> focusAfterReplaceLoop api v currElement (i + 1) fileMatched'))"
  by pat_completeness auto
termination
  by (relation "measure (\<lambda>(api, v, c, i, fm). nat (int (length (visibleRows (tree v))) - i))")
     (auto simp: current_def split: if_splits)

declare focusAfterReplaceLoop.simps [simp del]

definition getElementToFocusAfterReplace :: "model_api \<Rightarrow> viewer \<Rightarrow> match \<Rightarrow> renderable option" where
  "getElementToFocusAfterReplace api v currElement = focusAfterReplaceLoop api v currElement (- 1) False"

definition hasSameParent :: "('m, 'o) action_env \<Rightarrow> renderable option \<Rightarrow> renderable \<Rightarrow> bool" where
  "hasSameParent env elem currBottomElem =
     (case currBottomElem of
        RMatch c \<Rightarrow>
          (case elem of
             Some (RMatch m) \<Rightarrow>
               env_isEqual env (file_resource (match_parent (env_api env) m))
                 (file_resource (match_parent (env_api env) c))
           | _ \<Rightarrow> False)
      | _ \<Rightarrow> False)"

definition hasToOpenFile :: "('m, 'o) action_env \<Rightarrow> 'm world \<Rightarrow> renderable \<Rightarrow> bool" where
  "hasToOpenFile env w currBottomElem =
     (case currBottomElem of
        RMatch c \<Rightarrow>
          (case activeEditorResource w of
             Some file \<Rightarrow> env_isEqual env file (file_resource (match_parent (env_api env) c))
           | None \<Rightarrow> False)
      | _ \<Rightarrow> False)"

text \<open>
  With \<open>elementToFocus\<close> \<open>null\<close>, \<open>getPreviousElementAfterRemoved\<close> reads a property of
  \<open>null\<close> in \<open>getVisibleParent\<close> and throws.
\<close>

definition getElementToShowReplacePreview ::
  "('m, 'o) action_env \<Rightarrow> viewer \<Rightarrow> renderable option \<Rightarrow> renderable \<Rightarrow> bool
     \<Rightarrow> error + renderable option \<times> viewer" where
  "getElementToShowReplacePreview env v elementToFocus currBottomElem tv =
     (if hasSameParent env elementToFocus currBottomElem then Inr (elementToFocus, v)
      else
        (case elementToFocus of
           None \<Rightarrow> Inl (Error ''TypeError: Cannot read properties of null'')
         | Some ef \<Rightarrow>
             (case getPreviousElementAfterRemoved (env_api env) v ef tv of
                Inl err \<Rightarrow> Inl err
              | Inr (previousElement, v1) \<Rightarrow>
                  if hasSameParent env previousElement currBottomElem
                  then Inr (previousElement, v1)
                  else Inr (None, v1))))"

text \<open>\<open>this.viewlet?.open(e, true)\<close>; \<open>viewlet\<close> says whether the runner has a viewlet.\<close>

definition viewletOpen :: "bool \<Rightarrow> renderable \<Rightarrow> 'm world \<Rightarrow> 'm world" where
  "viewletOpen viewlet e w = (if viewlet then w\<lparr>opened := opened w @ [(e, True)]\<rparr> else w)"

definition openReplacePreview :: "renderable \<Rightarrow> 'm world \<Rightarrow> 'm world" where
  "openReplacePreview e w = w\<lparr>replacePreviews := replacePreviews w @ [(e, True)]\<rparr>"

text \<open>\<open>if (e) { setFocus([e]); setSelection([e]); }\<close>.\<close>

definition focusAndSelect :: "renderable option \<Rightarrow> viewer \<Rightarrow> viewer" where
  "focusAndSelect e v = (case e of None \<Rightarrow> v | Some x \<Rightarrow> setSelection [x] (setFocus [x] v))"

text \<open>
  The runner is handed the two methods \<open>this.getElementToFocusAfterRemoved\<close> and
  \<open>this.getPreviousElementAfterRemoved\<close> of the action as function values, keeps them in
  fields of its own and calls them as \<open>this.getElementToFocusAfterRemoved(...)\<close> and
  \<open>this.getPreviousElementAfterRemoved(...)\<close>, so that \<open>this\<close> inside them is the runner.
  \<open>getPreviousElementAfterRemoved\<close> does not use \<open>this\<close> and does what it does on the
  action. \<open>getElementToFocusAfterRemoved\<close> starts with
  \<open>this.getNextElementAfterRemoved(viewer, elementToRemove)\<close>; the runner has no such
  property, so the call throws a \<open>TypeError\<close> before anything is read or changed.
\<close>

definition runnerGetElementToFocusAfterRemoved ::
  "viewer \<Rightarrow> renderable \<Rightarrow> bool \<Rightarrow> error + renderable option \<times> viewer" where
  "runnerGetElementToFocusAfterRemoved v lastElementToBeRemoved isTreeViewVisible =
     Inl (Error ''TypeError: this.getNextElementAfterRemoved is not a function'')"

text \<open>
  \<open>ReplaceActionRunner.performReplace\<close>. \<open>elementsToReplace\<close> is never empty
  (\<open>getElementsToOperateOnInfo_nonempty\<close> below), so its last element exists. When the
  last element is not a line match, the call of the runner's
  \<open>getElementToFocusAfterRemoved\<close> throws, after \<open>batchReplace\<close>; the lines after the
  call are translated all the same.
\<close>

definition performReplace ::
  "('m, 'o) action_env \<Rightarrow> bool \<Rightarrow> renderable \<Rightarrow> 'm world \<Rightarrow> error option \<times> 'm world" where
  "performReplace env viewlet elem w =
     (case getElementsToOperateOnInfo (env_searchComparer env) (viewer w) elem (env_sortOrder env) of
        (elementsToReplace, mustReselect) \<Rightarrow>
          let w1 = (case getSearchView w of
                      None \<Rightarrow> w
                    | Some sv \<Rightarrow>
                        w\<lparr>searchView := Some (sv\<lparr>searchResult :=
                              env_batchReplace env elementsToReplace (searchResult sv)\<rparr>)\<rparr>);
              tv = treeLayoutVisible w1;
              currentBottomFocusElement = last elementsToReplace
          in case currentBottomFocusElement of
               RMatch cm \<Rightarrow>
                 let elementToFocus = getElementToFocusAfterReplace (env_api env) (viewer w1) cm;
                     v2 = focusAndSelect elementToFocus (viewer w1)
                 in (case getElementToShowReplacePreview env v2 elementToFocus
                            currentBottomFocusElement tv of
                       Inl err \<Rightarrow> (Some err, w1\<lparr>viewer := v2\<rparr>)
                     | Inr (elementToShowReplacePreview, v3) \<Rightarrow>
                         let w4 = w1\<lparr>viewer := domFocus v3\<rparr>
                         in (case elementToShowReplacePreview of
                               None \<Rightarrow> (None, viewletOpen viewlet currentBottomFocusElement w4)
                             | Some p \<Rightarrow>
                                 if \<not> env_useReplacePreview env
                                    \<or> hasToOpenFile env w4 currentBottomFocusElement
                                 then (None, viewletOpen viewlet currentBottomFocusElement w4)
                                 else (None, openReplacePreview p w4)))
             | _ \<Rightarrow>
                 (case runnerGetElementToFocusAfterRemoved (viewer w1)
                         currentBottomFocusElement tv of
                    Inl err \<Rightarrow> (Some err, w1)
                  | Inr (nextFocusElement, v2) \<Rightarrow>
                      let w4 = w1\<lparr>viewer := domFocus (focusAndSelect nextFocusElement v2)\<rparr>
                      in (None, if isFileMatch elem then viewletOpen viewlet elem w4 else w4)))"

text \<open>
  In the specification's words: the active view after \<open>batchRemove\<close>, or \<open>batchReplace\<close>,
  of the elements on its model and nothing else; and the elements an action works on.
\<close>

definition removeFromModel :: "('m, 'o) action_env \<Rightarrow> renderable list \<Rightarrow> 'm world \<Rightarrow> 'm search_view option" where
  "removeFromModel env es w =
     map_option (\<lambda>sv. sv\<lparr>searchResult := env_batchRemove env es (searchResult sv)\<rparr>) (searchView w)"

definition replaceInModel :: "('m, 'o) action_env \<Rightarrow> renderable list \<Rightarrow> 'm world \<Rightarrow> 'm search_view option" where
  "replaceInModel env es w =
     map_option (\<lambda>sv. sv\<lparr>searchResult := env_batchReplace env es (searchResult sv)\<rparr>) (searchView w)"

definition elementsOf :: "('m, 'o) action_env \<Rightarrow> renderable \<Rightarrow> 'm world \<Rightarrow> renderable list" where
  "elementsOf env elem w =
     fst (getElementsToOperateOnInfo (env_searchComparer env) (viewer w) elem (env_sortOrder env))"


text \<open>
  The line format in the specification's words. The decimal notation of a number, from
  its digits, least significant first, and the value such a notation stands for; the
  prefix of line \<open>i\<close>: the start line and column, separated by a comma, for the first line
  and the start line plus \<open>i\<close> for the others; the length of the longest prefix; the line
  made of the indentation, the prefix, a colon and a space, the padding to the longest
  prefix, and the preview line.
\<close>

definition digitChar :: "nat \<Rightarrow> char" where
  "digitChar d = ''0123456789'' ! d"

fun digitsFromLeast :: "nat \<Rightarrow> string" where
  "digitsFromLeast n = (if n = 0 then [] else digitChar (n mod 10) # digitsFromLeast (n div 10))"

definition decimal :: "nat \<Rightarrow> string" where
  "decimal n = (if n = 0 then ''0'' else rev (digitsFromLeast n))"

definition digitValue :: "char \<Rightarrow> nat" where
  "digitValue c = of_char c - 48"

definition decimalValue :: "string \<Rightarrow> nat" where
  "decimalValue s = foldl (\<lambda>v c. 10 * v + digitValue c) 0 s"

definition prefixOf :: "match \<Rightarrow> nat \<Rightarrow> string" where
  "prefixOf m i =
     (if i = 0
      then decimal (startLineNumber (range_of m)) @ '','' @ decimal (startColumn (range_of m))
      else decimal (startLineNumber (range_of m) + i))"

definition longestPrefix :: "match \<Rightarrow> nat" where
  "longestPrefix m = Max (set (map (\<lambda>i. length (prefixOf m i)) [0..<length (fullPreviewLines m)]))"

definition expectedLine :: "match \<Rightarrow> nat \<Rightarrow> nat \<Rightarrow> string" where
  "expectedLine m indent i =
     replicate indent CHR '' '' @ prefixOf m i @ '': ''
       @ replicate (longestPrefix m - length (prefixOf m i)) CHR '' '' @ fullPreviewLines m ! i"


text \<open>A comparator that orders as a total preorder.\<close>

definition total_preorder :: "('a \<Rightarrow> 'a \<Rightarrow> int) \<Rightarrow> bool" where
  "total_preorder cmp =
     ((\<forall>a b. cmp a b \<le> 0 \<or> cmp b a \<le> 0)
      \<and> (\<forall>a b c. cmp a b \<le> 0 \<and> cmp b c \<le> 0 \<longrightarrow> cmp a c \<le> 0))"

text \<open>
  The menu items the specification expects for one command, in its words: the items of the
  command palette, or of the menus the command names, when the command has a label.
\<close>

definition commandsOf :: "('arg, 'res) IWorkbenchConstructionOptions \<Rightarrow> ('arg, 'res) ICommand list" where
  "commandsOf options = (case commands options of None \<Rightarrow> [] | Some cs \<Rightarrow> cs)"

definition menuItemsFor :: "('arg, 'res) ICommand \<Rightarrow> (MenuId \<times> string \<times> string) list" where
  "menuItemsFor command =
     (if truthy_string (label command)
      then map (\<lambda>m. (asMenuId m, cmd_id command, the (label command))) (menusOf command)
      else [])"

section \<open>Concrete inputs\<close>

definition exampleArgs :: IFindInFilesArgs where
  "exampleArgs = \<lparr> query = Some ''foo'', replace = None, preserveCase = None, triggerSearch = None,
      filesToInclude = None, filesToExclude = None, isRegex = None, isCaseSensitive = None,
      matchWholeWord = None, useExcludeSettingsAndIgnoreFiles = Some True, onlyOpenEditors = None \<rparr>"

definition freshState :: "(unit, unit, unit) web_state" where
  "freshState = \<lparr> created = False, marks = [], commandsRegistry = [], menuRegistry = [],
      workbenches = [] \<rparr>"

definition noOptions :: "(unit, unit) IWorkbenchConstructionOptions" where
  "noOptions = \<lparr> commands = None, tarballProxyEndpoints = None \<rparr>"

definition helloCommand :: "(unit, unit) ICommand" where
  "helloCommand = \<lparr> cmd_id = ''hello'', handler = (\<lambda>args. ()), label = Some ''Hello'',
      menu = None \<rparr>"

definition quietCommand :: "(unit, unit) ICommand" where
  "quietCommand = \<lparr> cmd_id = ''quiet'', handler = (\<lambda>args. ()), label = None,
      menu = Some (OneMenu StatusBarWindowIndicatorMenu) \<rparr>"

definition emptyMenuCommand :: "(unit, unit) ICommand" where
  "emptyMenuCommand = \<lparr> cmd_id = ''nowhere'', handler = (\<lambda>args. ()), label = Some ''Nowhere'',
      menu = Some (MenuArray []) \<rparr>"

definition namelessCommand :: "(unit, unit) ICommand" where
  "namelessCommand = \<lparr> cmd_id = [], handler = (\<lambda>args. ()), label = Some ''Nameless'',
      menu = None \<rparr>"

definition namelessSecond :: "(unit, unit) IWorkbenchConstructionOptions" where
  "namelessSecond = \<lparr> commands = Some [helloCommand, namelessCommand, quietCommand],
      tarballProxyEndpoints = None \<rparr>"

definition twoCommands :: "(unit, unit) IWorkbenchConstructionOptions" where
  "twoCommands = \<lparr> commands = Some [helloCommand, quietCommand], tarballProxyEndpoints = None \<rparr>"

definition emptyMenuOptions :: "(unit, unit) IWorkbenchConstructionOptions" where
  "emptyMenuOptions = \<lparr> commands = Some [emptyMenuCommand], tarballProxyEndpoints = None \<rparr>"

definition exampleMatch :: match where
  "exampleMatch =
     Match 7 \<lparr> startLineNumber = 9, startColumn = 5, endLineNumber = 10, endColumn = 3 \<rparr>
       [''foo('', ''  bar)'']"

definition threeLineMatch :: match where
  "threeLineMatch =
     Match 21 \<lparr> startLineNumber = 99, startColumn = 1, endLineNumber = 101, endColumn = 2 \<rparr>
       [''a'', ''b'', ''c'']"

definition otherMatch :: match where
  "otherMatch =
     Match 3 \<lparr> startLineNumber = 2, startColumn = 1, endLineNumber = 2, endColumn = 4 \<rparr>
       [''foo'']"

fun renderableId :: "renderable \<Rightarrow> nat" where
  "renderableId (RMatch m) = match_id m"
| "renderableId (RFile f) = file_id f"
| "renderableId (RFolder f) = folder_id f"

definition compareById :: "renderable \<Rightarrow> renderable \<Rightarrow> unit \<Rightarrow> int" where
  "compareById a b sortOrder = int (renderableId a) - int (renderableId b)"

definition twoSelected :: viewer where
  "twoSelected = \<lparr> tree = [], selection = [Some (RMatch exampleMatch), None, Some (RMatch otherMatch)],
      focus = [], revealed = [], domFocused = 0 \<rparr>"




definition thirdMatch :: match where
  "thirdMatch =
     Match 11 \<lparr> startLineNumber = 2, startColumn = 3, endLineNumber = 2, endColumn = 6 \<rparr>
       [''baz'']"

text \<open>A line match that is in no tree.\<close>

definition strayMatch :: match where
  "strayMatch =
     Match 42 \<lparr> startLineNumber = 1, startColumn = 1, endLineNumber = 1, endColumn = 2 \<rparr>
       [''qux'']"

definition fileA :: file_match where
  "fileA = FileMatch 1 ''a.ts'' [exampleMatch, otherMatch]"

definition fileB :: file_match where
  "fileB = FileMatch 2 ''b.ts'' [thirdMatch]"

definition rootFolder :: folder_match where
  "rootFolder =
     FolderMatch 0 FolderMatchWorkspaceRoot (Some ''ws'') [FileChild fileA, FileChild fileB]"

text \<open>The root folder and the first file are expanded, the second file is collapsed.\<close>

definition exampleTree :: "tnode list" where
  "exampleTree =
     [TNode (RFolder rootFolder) False
        [TNode (RFile fileA) False
           [TNode (RMatch exampleMatch) False [], TNode (RMatch otherMatch) False []],
         TNode (RFile fileB) True [TNode (RMatch thirdMatch) False []]]]"

definition exampleViewer :: viewer where
  "exampleViewer = \<lparr> tree = exampleTree, selection = [Some (RMatch otherMatch)],
      focus = [RMatch otherMatch], revealed = [], domFocused = 0 \<rparr>"

definition expandedViewer :: viewer where
  "expandedViewer = exampleViewer\<lparr>tree := expandTree (RFile fileB) exampleTree\<rparr>"

definition exampleApi :: model_api where
  "exampleApi = \<lparr> match_parent = (\<lambda>m. if m = thirdMatch then fileB else fileA),
      file_parent = (\<lambda>f. rootFolder), folder_parent = (\<lambda>f. None),
      file_closestRoot = (\<lambda>f. Some rootFolder), folder_closestRoot = (\<lambda>f. None),
      file_idString = file_resource \<rparr>"

text \<open>
  A search-result model for the examples: the matches it holds and the elements replaced so
  far.
\<close>

definition exampleActionEnv :: "(renderable list \<times> renderable list, unit) action_env" where
  "exampleActionEnv = \<lparr> env_api = exampleApi, env_searchComparer = compareById,
      env_sortOrder = (), env_useReplacePreview = True,
      env_arrayContainsElementOrParent = (\<lambda>e es. e \<in> set es),
      env_batchRemove = (\<lambda>es (ms, replaced). (filter (\<lambda>x. x \<notin> set es) ms, replaced)),
      env_batchReplace = (\<lambda>es (ms, replaced). (filter (\<lambda>x. x \<notin> set es) ms, replaced @ es)),
      env_isEqual = (\<lambda>a b. a = b) \<rparr>"

definition exampleWorld :: "(renderable list \<times> renderable list) world" where
  "exampleWorld = \<lparr> viewer = exampleViewer,
      searchView = Some \<lparr> isTreeLayoutViewVisible = True,
        searchResult = ([RMatch exampleMatch, RMatch otherMatch, RMatch thirdMatch], []),
        view_calls = [] \<rparr>,
      clipboard = [], activeEditorResource = None, opened = [], replacePreviews = [] \<rparr>"

section \<open>FindInFilesCommand: the includes/excludes flag\<close>

text \<open>
  C9. When the configured mode is not \<open>view\<close>, \<open>FindInFilesCommand\<close> issues exactly one
  call, the open-search-editor command with the converted arguments; their
  \<open>showIncludesExcludes\<close> is \<open>!!(filesToExclude || !useExcludeSettingsAndIgnoreFiles)\<close>, and
  it is the same whatever \<open>filesToInclude\<close> is.
\<close>

theorem FindInFilesCommand_showIncludesExcludes:
  assumes "mode \<noteq> ''view''"
  shows "FindInFilesCommand mode openedView updated args =
           [ExecuteOpenEditorCommand (convertArgs mode args)]
       \<and> ose_showIncludesExcludes (convertArgs mode args) =
           (truthy_string (filesToExclude args) \<or> \<not> truthy_bool (useExcludeSettingsAndIgnoreFiles args))
       \<and> ose_showIncludesExcludes (convertArgs mode (args\<lparr>filesToInclude := inc\<rparr>)) =
           ose_showIncludesExcludes (convertArgs mode args)"
  using assms by (simp add: FindInFilesCommand_def convertArgs_def)

theorem FindInFilesCommand_showIncludesExcludes_witness:
  "FindInFilesCommand ''reuseEditor'' True False exampleArgs =
       [ExecuteOpenEditorCommand (convertArgs ''reuseEditor'' exampleArgs)]
   \<and> ose_showIncludesExcludes (convertArgs ''reuseEditor'' exampleArgs) = False
   \<and> ose_showIncludesExcludes
        (convertArgs ''reuseEditor'' (exampleArgs\<lparr>filesToInclude := Some ''src''\<rparr>)) = False"
  using FindInFilesCommand_showIncludesExcludes
          [of "''reuseEditor''" True False exampleArgs "Some ''src''"]
  by (simp add: exampleArgs_def truthy_string_def truthy_bool_def)

section \<open>create: the guard and the registrations\<close>

lemma fold_appendMenuItem:
  "fold (\<lambda>m. appendMenuItem (asMenuId m) i t) ms st =
     st\<lparr>menuRegistry := menuRegistry st @ map (\<lambda>m. (asMenuId m, i, t)) ms\<rparr>"
  by (induction ms arbitrary: st) (simp_all add: appendMenuItem_def)

lemma registerOne_eq:
  "cmd_id c \<noteq> [] \<Longrightarrow>
   registerOne c st =
     Inr (st\<lparr>commandsRegistry := commandsRegistry st @ [(cmd_id c, forwardingHandler c)],
            menuRegistry := menuRegistry st @ menuItemsFor c\<rparr>)"
  by (simp add: registerOne_def Let_def fold_appendMenuItem registerCommand_def menuItemsFor_def)

lemma registerOne_invalid: "cmd_id c = [] \<Longrightarrow> registerOne c st = Inl (Error ''invalid command'')"
  by (simp add: registerOne_def registerCommand_def)

lemma registerCommands_valid:
  "\<forall>c\<in>set cs. cmd_id c \<noteq> [] \<Longrightarrow>
   registerCommands cs st =
     (Inr (),
      st\<lparr>commandsRegistry := commandsRegistry st @ map (\<lambda>c. (cmd_id c, forwardingHandler c)) cs,
         menuRegistry := menuRegistry st @ concat (map menuItemsFor cs)\<rparr>)"
  by (induction cs arbitrary: st) (simp_all add: registerOne_eq)

text \<open>The loop stops at the first command with an empty id.\<close>

lemma registerCommands_invalid:
  assumes "\<forall>c\<in>set before. cmd_id c \<noteq> []" and "cmd_id c = []"
  shows "registerCommands (before @ c # rest) st =
     (Inl (Error ''invalid command''),
      st\<lparr>commandsRegistry := commandsRegistry st @ map (\<lambda>c. (cmd_id c, forwardingHandler c)) before,
         menuRegistry := menuRegistry st @ concat (map menuItemsFor before)\<rparr>)"
  using assms(1)
  by (induction before arbitrary: st) (simp_all add: registerOne_eq registerOne_invalid [OF assms(2)])

lemma registerCommands_frame:
  "created (snd (registerCommands cs st)) = created st
   \<and> workbenches (snd (registerCommands cs st)) = workbenches st
   \<and> fst (registerCommands cs st) \<in> {Inr (), Inl (Error ''invalid command'')}"
proof (induction cs arbitrary: st)
  case Nil
  then show ?case by simp
next
  case (Cons c cs)
  show ?case
  proof (cases "cmd_id c = []")
    case True
    then show ?thesis by (simp add: registerOne_invalid)
  next
    case False
    with Cons.IH show ?thesis by (simp add: registerOne_eq)
  qed
qed

lemma create_first_call:
  assumes "\<not> created st"
  shows "created (snd (create domElement options st))
       \<and> fst (create domElement options st) \<in> {Inr (), Inl (Error ''invalid command'')}"
proof (cases "commands options")
  case None
  with assms show ?thesis
    by (simp add: create_def Let_def registerCommand_def)
next
  case (Some cs)
  let ?st1 = "st\<lparr>marks := marks st @ [''code/didLoadWorkbenchMain''], created := True\<rparr>"
  obtain r st2 where loop: "registerCommands cs ?st1 = (r, st2)"
    by (cases "registerCommands cs ?st1")
  from registerCommands_frame [of cs ?st1] loop
  have "created st2" and "r \<in> {Inr (), Inl (Error ''invalid command'')}"
    by simp_all
  with assms Some loop show ?thesis
    by (cases r) (auto simp: create_def Let_def registerCommand_def)
qed

lemma create_valid_ids:
  assumes "\<not> created st" and "\<forall>c\<in>set (commandsOf options). cmd_id c \<noteq> []"
  shows "create domElement options st =
     (Inr (),
      st\<lparr>marks := marks st @ [''code/didLoadWorkbenchMain''], created := True,
         commandsRegistry := commandsRegistry st
           @ map (\<lambda>c. (cmd_id c, forwardingHandler c)) (commandsOf options)
           @ [(''_workbench.getTarballProxyEndpoints'', tarballHandler options)],
         menuRegistry := menuRegistry st @ concat (map menuItemsFor (commandsOf options)),
         workbenches := workbenches st @ [(domElement, options)]\<rparr>)"
proof (cases "commands options")
  case None
  with assms(1) show ?thesis
    by (simp add: create_def Let_def registerCommand_def commandsOf_def)
next
  case (Some cs)
  with assms(2) have "\<forall>c\<in>set cs. cmd_id c \<noteq> []"
    by (simp add: commandsOf_def)
  note loop = registerCommands_valid [OF this]
  from assms(1) Some show ?thesis
    by (simp add: create_def Let_def registerCommand_def commandsOf_def loop)
qed

text \<open>
  C1. When the flag \<open>created\<close> is set, \<open>create\<close> throws the error and leaves the command
  registry, the menu registry and the started workbenches as they were. When it is not
  set, \<open>create\<close> does not throw that error, and it does not throw at all when no command
  has an empty id, which the host's command registry rejects. After any call the flag is
  set, so every later call throws.
\<close>

theorem create_more_than_once:
  "(created st \<longrightarrow>
      fst (create domElement options st) =
        Inl (Error ''Unable to create the VSCode workbench more than once.'')
      \<and> commandsRegistry (snd (create domElement options st)) = commandsRegistry st
      \<and> menuRegistry (snd (create domElement options st)) = menuRegistry st
      \<and> workbenches (snd (create domElement options st)) = workbenches st)
   \<and> (\<not> created st \<longrightarrow>
        fst (create domElement options st) \<noteq>
          Inl (Error ''Unable to create the VSCode workbench more than once.''))
   \<and> (\<not> created st \<and> (\<forall>c\<in>set (commandsOf options). cmd_id c \<noteq> []) \<longrightarrow>
        fst (create domElement options st) = Inr ())
   \<and> created (snd (create domElement options st))"
proof (cases "created st")
  case True
  then show ?thesis
    by (simp add: create_def Let_def)
next
  case False
  from create_first_call [OF False, of domElement options]
  have "created (snd (create domElement options st))"
    and "fst (create domElement options st) \<noteq>
          Inl (Error ''Unable to create the VSCode workbench more than once.'')"
    by auto
  moreover have "fst (create domElement options st) = Inr ()"
    if "\<forall>c\<in>set (commandsOf options). cmd_id c \<noteq> []"
    using create_valid_ids [OF False that, of domElement] by simp
  ultimately show ?thesis
    using False by blast
qed

theorem create_more_than_once_witness:
  "fst (create 1 twoCommands freshState) = Inr ()
   \<and> created (snd (create 1 twoCommands freshState))
   \<and> fst (create 2 twoCommands (snd (create 1 twoCommands freshState))) =
        Inl (Error ''Unable to create the VSCode workbench more than once.'')
   \<and> commandsRegistry (snd (create 2 twoCommands (snd (create 1 twoCommands freshState)))) =
        commandsRegistry (snd (create 1 twoCommands freshState))
   \<and> menuRegistry (snd (create 2 twoCommands (snd (create 1 twoCommands freshState)))) =
        menuRegistry (snd (create 1 twoCommands freshState))
   \<and> workbenches (snd (create 2 twoCommands (snd (create 1 twoCommands freshState)))) =
        workbenches (snd (create 1 twoCommands freshState))"
proof -
  have fresh: "\<not> created freshState"
    by (simp add: freshState_def)
  have ids: "\<forall>c\<in>set (commandsOf twoCommands). cmd_id c \<noteq> []"
    by (simp add: commandsOf_def twoCommands_def helloCommand_def quietCommand_def)
  note first = create_more_than_once [of freshState 1 twoCommands]
  note second = create_more_than_once [of "snd (create 1 twoCommands freshState)" 2 twoCommands]
  from first fresh ids have a: "fst (create 1 twoCommands freshState) = Inr ()"
    and b: "created (snd (create 1 twoCommands freshState))"
    by blast+
  from second b show ?thesis
    using a by blast
qed

text \<open>
  C4, as the claim states it, fails: a command with a label whose \<open>menu\<close> is the empty
  array gets no menu item.
\<close>

theorem create_menu_item_counterexample:
  "truthy_string (label emptyMenuCommand)
   \<and> cmd_id emptyMenuCommand \<noteq> []
   \<and> fst (create 1 emptyMenuOptions freshState) = Inr ()
   \<and> menuRegistry (snd (create 1 emptyMenuOptions freshState)) = []"
  by (simp add: create_def Let_def registerCommand_def registerOne_def menusOf_def
      emptyMenuOptions_def emptyMenuCommand_def freshState_def truthy_string_def)

text \<open>
  C4, amended. On a first call with a \<open>commands\<close> array in which no command has an empty
  id, \<open>create\<close> registers each command's id, in order, with a handler that passes on the
  arguments and not the accessor, then the built-in tarball command; and it appends, for
  each command with a non-empty label, one menu item per menu of
  \<open>asArray(command.menu ?? Menu.CommandPalette)\<close>, and nothing for a command without
  one. So a command gets a menu item if and only if its label is non-empty and its menu
  list is not empty.
\<close>

theorem create_registers_commands:
  assumes "\<not> created st" and "commands options = Some cs"
    and "\<forall>c\<in>set cs. cmd_id c \<noteq> []"
  shows "fst (create domElement options st) = Inr ()
       \<and> commandsRegistry (snd (create domElement options st)) =
           commandsRegistry st @ map (\<lambda>c. (cmd_id c, forwardingHandler c)) cs
             @ [(''_workbench.getTarballProxyEndpoints'', tarballHandler options)]
       \<and> (\<forall>c accessor args. forwardingHandler c accessor args = HandlerResult (handler c args))
       \<and> menuRegistry (snd (create domElement options st)) =
           menuRegistry st @ concat (map menuItemsFor cs)
       \<and> (\<forall>c. (menuItemsFor c \<noteq> []) = (truthy_string (label c) \<and> menusOf c \<noteq> []))"
proof -
  from assms(2,3) have "\<forall>c\<in>set (commandsOf options). cmd_id c \<noteq> []"
    by (simp add: commandsOf_def)
  from create_valid_ids [OF assms(1) this, of domElement] assms(2) show ?thesis
    by (simp add: commandsOf_def forwardingHandler_def menuItemsFor_def)
qed

theorem create_registers_commands_witness:
  "map fst (commandsRegistry (snd (create 1 twoCommands freshState))) =
       [''hello'', ''quiet'', ''_workbench.getTarballProxyEndpoints'']
   \<and> menuRegistry (snd (create 1 twoCommands freshState)) =
       [(MenuId_CommandPalette, ''hello'', ''Hello'')]"
proof -
  have fresh: "\<not> created freshState"
    by (simp add: freshState_def)
  have cmds: "commands twoCommands = Some [helloCommand, quietCommand]"
    by (simp add: twoCommands_def)
  have regs: "commandsRegistry freshState = []" "menuRegistry freshState = []"
    by (simp_all add: freshState_def)
  have items: "menuItemsFor helloCommand = [(MenuId_CommandPalette, ''hello'', ''Hello'')]"
    "menuItemsFor quietCommand = []"
    by (simp_all add: menuItemsFor_def menusOf_def truthy_string_def helloCommand_def
        quietCommand_def)
  have ids: "cmd_id helloCommand = ''hello''" "cmd_id quietCommand = ''quiet''"
    by (simp_all add: helloCommand_def quietCommand_def)
  have valid: "\<forall>c\<in>set [helloCommand, quietCommand]. cmd_id c \<noteq> []"
    by (simp add: ids)
  note t = create_registers_commands [OF fresh cmds valid, of 1]
  from t [THEN conjunct2, THEN conjunct1]
    t [THEN conjunct2, THEN conjunct2, THEN conjunct2, THEN conjunct1]
  show ?thesis
    by (simp add: regs items ids)
qed

text \<open>
  A command with an empty id ends \<open>create\<close> with the registry's exception: the commands
  before it are registered, those after it and the tarball command are not, and no
  workbench is started; the flag is set all the same.
\<close>

lemma create_invalid_command:
  "fst (create 1 namelessSecond freshState) = Inl (Error ''invalid command'')
   \<and> map fst (commandsRegistry (snd (create 1 namelessSecond freshState))) = [''hello'']
   \<and> workbenches (snd (create 1 namelessSecond freshState)) = []
   \<and> created (snd (create 1 namelessSecond freshState))"
  by (simp add: create_def Let_def registerCommand_def registerOne_def menusOf_def
      namelessSecond_def namelessCommand_def helloCommand_def quietCommand_def freshState_def
      truthy_string_def appendMenuItem_def)

section \<open>matchToString: the format of the copied lines\<close>

declare digitsFromLeast.simps [simp del] numberToString.simps [simp del]

text \<open>The numbers are printed in decimal notation.\<close>

lemma digit_digitChar: "d < 10 \<Longrightarrow> digit d = digitChar d"
proof -
  have "\<forall>d\<in>set [0..<10]. digit d = digitChar d"
    by code_simp
  then show "d < 10 \<Longrightarrow> digit d = digitChar d"
    by simp
qed

lemma digitChar_props:
  "d < 10 \<Longrightarrow> digitValue (digitChar d) = d \<and> List.member ''0123456789'' (digitChar d)"
proof -
  have "\<forall>d\<in>set [0..<10]. digitValue (digitChar d) = d \<and> List.member ''0123456789'' (digitChar d)"
    by code_simp
  then show "d < 10 \<Longrightarrow> digitValue (digitChar d) = d \<and> List.member ''0123456789'' (digitChar d)"
    by simp
qed

lemma numberToString_decimal: "numberToString n = decimal n"
proof (induction n rule: numberToString.induct)
  case (1 n)
  show ?case
  proof (cases "n < 10")
    case True
    then have small: "n div 10 = 0" by simp
    have zero: "digitChar 0 = CHR ''0''" by (simp add: digitChar_def)
    show ?thesis
    proof (cases "n = 0")
      case True
      then show ?thesis
        by (subst numberToString.simps) (simp add: decimal_def digit_digitChar zero)
    next
      case False
      with True small show ?thesis
        by (subst numberToString.simps)
           (simp add: decimal_def digit_digitChar digitsFromLeast.simps [of n]
              digitsFromLeast.simps [of 0])
    qed
  next
    case False
    then have "n div 10 \<noteq> 0" "n \<noteq> 0" by simp_all
    with False "1.IH" show ?thesis
      by (subst numberToString.simps)
         (simp add: decimal_def digit_digitChar digitsFromLeast.simps [of n])
  qed
qed

lemma digitsFromLeast_props:
  "foldr (\<lambda>c v. 10 * v + digitValue c) (digitsFromLeast n) 0 = n
   \<and> (\<forall>c\<in>set (digitsFromLeast n). List.member ''0123456789'' c)"
proof (induction n rule: digitsFromLeast.induct)
  case (1 n)
  show ?case
  proof (cases "n = 0")
    case True
    then show ?thesis by (simp add: digitsFromLeast.simps [of 0])
  next
    case False
    have lt: "n mod 10 < 10" by simp
    have unfold: "digitsFromLeast n = digitChar (n mod 10) # digitsFromLeast (n div 10)"
      using False by (subst digitsFromLeast.simps) simp
    from "1.IH" [OF False] digitChar_props [OF lt] show ?thesis
      unfolding unfold by simp
  qed
qed

lemma decimal_props:
  "decimal k \<noteq> [] \<and> (\<forall>c\<in>set (decimal k). List.member ''0123456789'' c)
   \<and> decimalValue (decimal k) = k"
proof (cases "k = 0")
  case True
  have "List.member ''0123456789'' CHR ''0''" by code_simp
  with True show ?thesis
    by (simp add: decimal_def decimalValue_def digitValue_def)
next
  case False
  then have "digitsFromLeast k \<noteq> []"
    by (subst digitsFromLeast.simps) simp
  moreover have "decimalValue (rev (digitsFromLeast k)) = k"
    using digitsFromLeast_props [of k] by (simp add: decimalValue_def foldl_conv_foldr)
  ultimately show ?thesis
    using False digitsFromLeast_props [of k] by (simp add: decimal_def)
qed

lemma linePrefix_prefixOf: "linePrefix m i = prefixOf m i"
  by (simp add: linePrefix_def prefixOf_def getFirstLinePrefix_def getOtherLinePrefix_def
      numberToString_decimal)


lemma largestPrefixSize_fold:
  "largestPrefixSize m =
     fold (\<lambda>i largest. max (length (prefixOf m i)) largest) [0..<length (fullPreviewLines m)] 0"
  unfolding linePrefix_prefixOf [symmetric]
  by (simp add: largestPrefixSize_def linePrefix_def Let_def if_distrib [of length])

lemma fold_max_Max:
  "xs \<noteq> [] \<Longrightarrow> fold (\<lambda>i largest. max (f i) largest) xs (0::nat) = Max (set (map f xs))"
proof -
  have "fold (\<lambda>i largest. max (f i) largest) xs a = Max (insert a (set (map f xs)))" for a :: nat
  proof (induction xs arbitrary: a)
    case Nil
    then show ?case by simp
  next
    case (Cons x xs)
    have "Max (insert (max (f x) a) (set (map f xs))) = Max (insert a (insert (f x) (set (map f xs))))"
      by (cases "set (map f xs) = {}") (simp_all add: ac_simps)
    with Cons [of "max (f x) a"] show ?case
      by simp
  qed
  moreover assume "xs \<noteq> []"
  ultimately show ?thesis
    by (simp add: Max_insert max_def)
qed

lemma largestPrefixSize_longestPrefix:
  "fullPreviewLines m \<noteq> [] \<Longrightarrow> largestPrefixSize m = longestPrefix m"
  unfolding largestPrefixSize_fold longestPrefix_def
  by (rule fold_max_Max) simp


lemma sequence_results_map:
  "(\<And>x. x \<in> set xs \<Longrightarrow> g x = Inr (h x)) \<Longrightarrow> sequence_results (map g xs) = Inr (map h xs)"
  by (induction xs) simp_all

lemma longestPrefix_ge:
  "i < length (fullPreviewLines m) \<Longrightarrow> length (prefixOf m i) \<le> longestPrefix m"
  unfolding longestPrefix_def by (rule Max_ge) auto

lemma longestPrefix_attained:
  assumes "fullPreviewLines m \<noteq> []"
  shows "\<exists>i<length (fullPreviewLines m). length (prefixOf m i) = longestPrefix m"
proof -
  let ?S = "set (map (\<lambda>i. length (prefixOf m i)) [0..<length (fullPreviewLines m)])"
  from assms have "?S \<noteq> {}" by simp
  then have "Max ?S \<in> ?S" by (intro Max_in) simp_all
  then show ?thesis by (auto simp: longestPrefix_def)
qed

lemma formatLine_ok:
  assumes "fullPreviewLines m \<noteq> []" and "0 \<le> indent" and "i < length (fullPreviewLines m)"
  shows "formatLine m indent (i, fullPreviewLines m ! i) = Inr (expectedLine m (nat indent) i)"
proof -
  have width: "largestPrefixSize m = longestPrefix m"
    using assms(1) by (rule largestPrefixSize_longestPrefix)
  have prefix: "(if i = 0 then getFirstLinePrefix m else getOtherLinePrefix m i) = prefixOf m i"
    using linePrefix_prefixOf [of m i] by (simp add: linePrefix_def)
  from longestPrefix_ge [OF assms(3)]
  have "\<not> int (longestPrefix m) - int (length (prefixOf m i)) < 0" by simp
  moreover have "nat (int (longestPrefix m) - int (length (prefixOf m i))) =
      longestPrefix m - length (prefixOf m i)" by simp
  moreover have "concat (replicate k '' '') = replicate k CHR '' ''" for k
    by (induction k) simp_all
  ultimately show ?thesis using assms(2)
    unfolding formatLine_def prod.case Let_def prefix width
    by (simp add: js_repeat_def expectedLine_def)
qed

lemma map_enumerate_nth:
  "map f (enumerate 0 xs) = map (\<lambda>i. f (i, xs ! i)) [0..<length xs]"
  by (rule nth_equalityI) (simp_all add: nth_enumerate_eq)

lemma join_concat:
  "xs \<noteq> [] \<Longrightarrow> join sep xs = concat (map (\<lambda>x. x @ sep) (butlast xs)) @ last xs"
  by (induction sep xs rule: join.induct) simp_all

lemma join_upt:
  assumes "0 < n"
  shows "join sep (map f [0..<n]) = concat (map (\<lambda>i. f i @ sep) [0..<n - 1]) @ f (n - 1)"
proof -
  from assms have ne: "map f [0..<n] \<noteq> []" by simp
  have "butlast (map f [0..<n]) = map f [0..<n - 1]"
    by (simp add: butlast_conv_take take_map)
  moreover have "last (map f [0..<n]) = f (n - 1)"
    using assms by (simp add: last_map)
  ultimately show ?thesis
    unfolding join_concat [OF ne] by (simp add: comp_def)
qed

lemma count_separators:
  "(\<And>x. x \<in> set xs \<Longrightarrow> c \<notin> set x) \<Longrightarrow>
   length (filter (\<lambda>d. d = c) (concat (map (\<lambda>x. x @ [c]) xs))) = length xs"
  by (induction xs) (auto simp: filter_empty_conv)

lemma newline_not_in_decimal: "CHR 0x0A \<notin> set (decimal k)"
proof
  assume "CHR 0x0A \<in> set (decimal k)"
  with decimal_props [of k] have "List.member ''0123456789'' (CHR 0x0A)" by blast
  moreover have "\<not> List.member ''0123456789'' (CHR 0x0A)" by code_simp
  ultimately show False by simp
qed

lemma newline_not_in_expectedLine:
  assumes "i < length (fullPreviewLines m)" and "\<forall>l\<in>set (fullPreviewLines m). CHR 0x0A \<notin> set l"
  shows "CHR 0x0A \<notin> set (expectedLine m indent i)"
proof -
  from assms have "CHR 0x0A \<notin> set (fullPreviewLines m ! i)" by simp
  moreover have "CHR 0x0A \<notin> set (prefixOf m i)"
    by (simp add: prefixOf_def newline_not_in_decimal)
  ultimately show ?thesis
    by (simp add: expectedLine_def)
qed

text \<open>
  C10. For a match with \<open>n\<close> preview lines, \<open>n\<close> at least one, and an indentation that is
  not negative, \<open>matchToString\<close> returns \<open>n\<close> lines, the first \<open>n - 1\<close> each followed by a
  newline: line \<open>i\<close> is the indentation, the prefix of line \<open>i\<close>, \<open>': '\<close>, the padding and
  preview line \<open>i\<close>. The prefix of the first line is the start line, a comma and the start
  column, in decimal notation; the prefix of line \<open>i > 0\<close> is the start line plus \<open>i\<close>.
  The padding fills the prefix up to the length of the longest prefix, so that on every
  line the preview text starts after \<open>indent + longestPrefix + 2\<close> characters. When no
  preview line holds a newline, the text has \<open>n - 1\<close> newlines, that is \<open>n\<close> lines.
\<close>

theorem matchToString_format:
  assumes "fullPreviewLines m \<noteq> []" and "0 \<le> indent"
  shows "matchToString m indent =
           Inr (concat (map (\<lambda>i. expectedLine m (nat indent) i @ [CHR 0x0A])
                          [0..<length (fullPreviewLines m) - 1])
                @ expectedLine m (nat indent) (length (fullPreviewLines m) - 1))
       \<and> (\<forall>i<length (fullPreviewLines m).
            expectedLine m (nat indent) i =
              replicate (nat indent) CHR '' '' @ prefixOf m i @ '': ''
                @ replicate (longestPrefix m - length (prefixOf m i)) CHR '' ''
                @ fullPreviewLines m ! i
          \<and> prefixOf m i =
              (if i = 0
               then decimal (startLineNumber (range_of m)) @ '','' @ decimal (startColumn (range_of m))
               else decimal (startLineNumber (range_of m) + i))
          \<and> length (prefixOf m i) \<le> longestPrefix m
          \<and> length (replicate (nat indent) CHR '' '' @ prefixOf m i @ '': ''
                      @ replicate (longestPrefix m - length (prefixOf m i)) CHR '' '')
              = nat indent + longestPrefix m + 2)
       \<and> (\<exists>i<length (fullPreviewLines m). length (prefixOf m i) = longestPrefix m)
       \<and> ((\<forall>l\<in>set (fullPreviewLines m). CHR 0x0A \<notin> set l) \<longrightarrow>
            (case matchToString m indent of
               Inl e \<Rightarrow> False
             | Inr text \<Rightarrow>
                 length (filter (\<lambda>c. c = CHR 0x0A) text) + 1 = length (fullPreviewLines m)))
       \<and> (\<forall>k. decimal k \<noteq> [] \<and> (\<forall>c\<in>set (decimal k). c \<in> set ''0123456789'')
              \<and> decimalValue (decimal k) = k)"
proof -
  let ?n = "length (fullPreviewLines m)"
  let ?L = "expectedLine m (nat indent)"
  from assms(1) have n: "0 < ?n" by simp
  have "sequence_results (map (formatLine m indent) (enumerate 0 (fullPreviewLines m))) =
          Inr (map ?L [0..<?n])"
    unfolding map_enumerate_nth
    by (rule sequence_results_map) (simp add: formatLine_ok [OF assms])
  then have "matchToString m indent = Inr (join [CHR 0x0A] (map ?L [0..<?n]))"
    by (simp add: matchToString_def)
  then have out: "matchToString m indent =
      Inr (concat (map (\<lambda>i. ?L i @ [CHR 0x0A]) [0..<?n - 1]) @ ?L (?n - 1))"
    unfolding join_upt [OF n] .
  have lines: "\<forall>i<?n.
            ?L i = replicate (nat indent) CHR '' '' @ prefixOf m i @ '': ''
                @ replicate (longestPrefix m - length (prefixOf m i)) CHR '' ''
                @ fullPreviewLines m ! i
          \<and> prefixOf m i =
              (if i = 0
               then decimal (startLineNumber (range_of m)) @ '','' @ decimal (startColumn (range_of m))
               else decimal (startLineNumber (range_of m) + i))
          \<and> length (prefixOf m i) \<le> longestPrefix m
          \<and> length (replicate (nat indent) CHR '' '' @ prefixOf m i @ '': ''
                      @ replicate (longestPrefix m - length (prefixOf m i)) CHR '' '')
              = nat indent + longestPrefix m + 2"
    using longestPrefix_ge [of _ m] by (simp add: expectedLine_def prefixOf_def)
  have count: "length (filter (\<lambda>c. c = CHR 0x0A)
                 (concat (map (\<lambda>i. ?L i @ [CHR 0x0A]) [0..<?n - 1]) @ ?L (?n - 1))) + 1 = ?n"
    if clean: "\<forall>l\<in>set (fullPreviewLines m). CHR 0x0A \<notin> set l"
  proof -
    have no: "CHR 0x0A \<notin> set (?L i)" if "i < ?n" for i
      using that clean by (rule newline_not_in_expectedLine)
    have "concat (map (\<lambda>i. ?L i @ [CHR 0x0A]) [0..<?n - 1]) =
        concat (map (\<lambda>x. x @ [CHR 0x0A]) (map ?L [0..<?n - 1]))"
      by (simp add: comp_def)
    moreover have "length (filter (\<lambda>c. c = CHR 0x0A)
        (concat (map (\<lambda>x. x @ [CHR 0x0A]) (map ?L [0..<?n - 1])))) = length (map ?L [0..<?n - 1])"
      by (rule count_separators) (use no in auto)
    moreover have "filter (\<lambda>c. c = CHR 0x0A) (?L (?n - 1)) = []"
      using no [of "?n - 1"] n by (auto simp: filter_empty_conv)
    ultimately show ?thesis
      using n by simp
  qed
  have digits: "\<forall>k. decimal k \<noteq> [] \<and> (\<forall>c\<in>set (decimal k). c \<in> set ''0123456789'')
              \<and> decimalValue (decimal k) = k"
    using decimal_props by simp
  have counted: "(\<forall>l\<in>set (fullPreviewLines m). CHR 0x0A \<notin> set l) \<longrightarrow>
            (case matchToString m indent of
               Inl e \<Rightarrow> False
             | Inr text \<Rightarrow>
                 length (filter (\<lambda>c. c = CHR 0x0A) text) + 1 = length (fullPreviewLines m))"
    unfolding out sum.case using count by blast
  from out lines longestPrefix_attained [OF assms(1)] counted digits show ?thesis
    by (intro conjI)
qed

theorem matchToString_format_witness:
  "fullPreviewLines exampleMatch \<noteq> []
   \<and> matchToString exampleMatch 2 = Inr (''  9,5: foo('' @ [CHR 0x0A] @ ''  10:    bar)'')
   \<and> longestPrefix exampleMatch = 3
   \<and> fullPreviewLines threeLineMatch \<noteq> []
   \<and> matchToString threeLineMatch 0 =
       Inr (''99,1: a'' @ [CHR 0x0A] @ ''100:  b'' @ [CHR 0x0A] @ ''101:  c'')"
proof -
  have lines: "fullPreviewLines exampleMatch \<noteq> []"
    by (simp add: exampleMatch_def)
  have lines3: "fullPreviewLines threeLineMatch \<noteq> []"
    by (simp add: threeLineMatch_def)
  have nonneg2: "(0::int) \<le> 2" and nonneg0: "(0::int) \<le> 0"
    by simp_all
  have "matchToString exampleMatch 2 =
          Inr (concat (map (\<lambda>i. expectedLine exampleMatch (nat 2) i @ [CHR 0x0A])
                          [0..<length (fullPreviewLines exampleMatch) - 1])
                @ expectedLine exampleMatch (nat 2) (length (fullPreviewLines exampleMatch) - 1))"
    by (rule matchToString_format [OF lines nonneg2, THEN conjunct1])
  also have "\<dots> = Inr (''  9,5: foo('' @ [CHR 0x0A] @ ''  10:    bar)'')"
    by code_simp
  finally have two: "matchToString exampleMatch 2 =
      Inr (''  9,5: foo('' @ [CHR 0x0A] @ ''  10:    bar)'')" .
  have "matchToString threeLineMatch 0 =
          Inr (concat (map (\<lambda>i. expectedLine threeLineMatch (nat 0) i @ [CHR 0x0A])
                          [0..<length (fullPreviewLines threeLineMatch) - 1])
                @ expectedLine threeLineMatch (nat 0) (length (fullPreviewLines threeLineMatch) - 1))"
    by (rule matchToString_format [OF lines3 nonneg0, THEN conjunct1])
  also have "\<dots> = Inr (''99,1: a'' @ [CHR 0x0A] @ ''100:  b'' @ [CHR 0x0A] @ ''101:  c'')"
    by code_simp
  finally have three: "matchToString threeLineMatch 0 =
      Inr (''99,1: a'' @ [CHR 0x0A] @ ''100:  b'' @ [CHR 0x0A] @ ''101:  c'')" .
  have "longestPrefix exampleMatch = 3"
    by code_simp
  with two three lines lines3 show ?thesis
    by simp
qed

section \<open>getElementsToOperateOnInfo: the elements an action works on\<close>

lemma mset_insert_by: "mset (insert_by cmp x ys) = add_mset x (mset ys)"
  by (induction ys) simp_all

lemma mset_js_sort: "mset (js_sort cmp xs) = mset xs"
  by (induction xs) (simp_all add: js_sort_def mset_insert_by)

lemma length_js_sort: "length (js_sort cmp xs) = length xs"
  using mset_js_sort [of cmp xs] by (metis size_mset)

lemma sorted_insert_by:
  assumes tp: "total_preorder cmp" and "sorted_wrt (\<lambda>a b. cmp a b \<le> 0) ys"
  shows "sorted_wrt (\<lambda>a b. cmp a b \<le> 0) (insert_by cmp x ys)"
  using assms(2)
proof (induction ys)
  case Nil then show ?case by simp
next
  case (Cons y ys)
  from tp have trans: "\<And>a b c. cmp a b \<le> 0 \<Longrightarrow> cmp b c \<le> 0 \<Longrightarrow> cmp a c \<le> 0"
    unfolding total_preorder_def by blast
  from tp have total: "\<And>a b. \<not> cmp a b \<le> 0 \<Longrightarrow> cmp b a \<le> 0"
    unfolding total_preorder_def by blast
  from Cons.prems have tail: "sorted_wrt (\<lambda>a b. cmp a b \<le> 0) ys"
    and head: "\<And>z. z \<in> set ys \<Longrightarrow> cmp y z \<le> 0"
    by simp_all
  show ?case
  proof (cases "cmp x y \<le> 0")
    case True
    then have "\<And>z. z \<in> set ys \<Longrightarrow> cmp x z \<le> 0"
      using head trans by blast
    with True Cons.prems show ?thesis by simp
  next
    case False
    then have "cmp y x \<le> 0" by (rule total)
    with False head Cons.IH [OF tail] show ?thesis
      by (simp add: set_insert_by)
  qed
qed

lemma sorted_js_sort:
  "total_preorder cmp \<Longrightarrow> sorted_wrt (\<lambda>a b. cmp a b \<le> 0) (js_sort cmp xs)"
  by (induction xs) (simp_all add: js_sort_def sorted_insert_by)

text \<open>
  C8. \<open>getElementsToOperateOnInfo\<close> returns the selection without its nulls, sorted by
  \<open>searchComparer\<close> under the sort order, when that selection has more than one element
  and contains the current element, and \<open>[currElement]\<close> in every other case;
  \<open>mustReselect\<close> says whether the selection without its nulls contains the current
  element. The sorted selection is a permutation of the selection, and it is ordered by
  the comparator when the comparator is a total preorder.
\<close>

theorem getElementsToOperateOnInfo_result:
  "fst (getElementsToOperateOnInfo searchComparer v currElement sortOrder) =
     (if length (filterNonNull (getSelection v)) > 1
         \<and> currElement \<in> set (filterNonNull (getSelection v))
      then js_sort (\<lambda>a b. searchComparer a b sortOrder) (filterNonNull (getSelection v))
      else [currElement])
   \<and> snd (getElementsToOperateOnInfo searchComparer v currElement sortOrder) =
       (currElement \<in> set (filterNonNull (getSelection v)))
   \<and> mset (js_sort (\<lambda>a b. searchComparer a b sortOrder) (filterNonNull (getSelection v))) =
       mset (filterNonNull (getSelection v))
   \<and> (total_preorder (\<lambda>a b. searchComparer a b sortOrder) \<longrightarrow>
        sorted_wrt (\<lambda>a b. searchComparer a b sortOrder \<le> 0)
          (js_sort (\<lambda>a b. searchComparer a b sortOrder) (filterNonNull (getSelection v))))"
  by (simp add: getElementsToOperateOnInfo_def Let_def set_js_sort length_js_sort mset_js_sort
      sorted_js_sort)

lemma total_preorder_compareById: "total_preorder (\<lambda>a b. compareById a b ())"
  unfolding total_preorder_def compareById_def by auto

theorem getElementsToOperateOnInfo_result_witness:
  "getElementsToOperateOnInfo compareById twoSelected (RMatch exampleMatch) () =
     ([RMatch otherMatch, RMatch exampleMatch], True)
   \<and> sorted_wrt (\<lambda>a b. compareById a b () \<le> 0) [RMatch otherMatch, RMatch exampleMatch]"
proof -
  have sorted: "js_sort (\<lambda>a b. compareById a b ()) [RMatch exampleMatch, RMatch otherMatch] =
      [RMatch otherMatch, RMatch exampleMatch]"
    by (simp add: js_sort_def compareById_def exampleMatch_def otherMatch_def)
  have sel: "filterNonNull (getSelection twoSelected) = [RMatch exampleMatch, RMatch otherMatch]"
    by (simp add: getSelection_def twoSelected_def)
  note t = getElementsToOperateOnInfo_result [of compareById twoSelected "RMatch exampleMatch" "()"]
  from t [THEN conjunct1] t [THEN conjunct2, THEN conjunct1]
  have "getElementsToOperateOnInfo compareById twoSelected (RMatch exampleMatch) () =
     ([RMatch otherMatch, RMatch exampleMatch], True)"
    unfolding sel sorted by (simp add: prod_eq_iff)
  moreover from t [THEN conjunct2, THEN conjunct2, THEN conjunct2] total_preorder_compareById
  have "sorted_wrt (\<lambda>a b. compareById a b () \<le> 0) [RMatch otherMatch, RMatch exampleMatch]"
    unfolding sel sorted by blast
  ultimately show ?thesis by simp
qed

section \<open>Handlers without their optional element\<close>



section \<open>The element to focus after a removal\<close>

lemma set_rows_subset: "set (rows n) \<subseteq> set (elements n)"
proof (induction n)
  case (TNode x c ch)
  then have "set (concat (map rows ch)) \<subseteq> set (concat (map elements ch))"
    by auto
  then show ?case by auto
qed

lemma set_visibleRows_subset: "set (visibleRows t) \<subseteq> set (allElements t)"
  unfolding visibleRows_def allElements_def using set_rows_subset by fastforce

lemma distinct_concat_rows:
  assumes "\<And>n. n \<in> set ch \<Longrightarrow> distinct (elements n) \<Longrightarrow> distinct (rows n)"
    and "distinct (concat (map elements ch))"
  shows "distinct (concat (map rows ch))"
  using assms
proof (induction ch)
  case Nil then show ?case by simp
next
  case (Cons a ch)
  have "set (rows a) \<subseteq> set (elements a)" by (rule set_rows_subset)
  moreover have "set (concat (map rows ch)) \<subseteq> set (concat (map elements ch))"
    using set_rows_subset by fastforce
  ultimately have "set (rows a) \<inter> set (concat (map rows ch)) = {}"
    using Cons.prems(2) by auto
  with Cons show ?case by simp
qed

lemma distinct_rows: "distinct (elements n) \<Longrightarrow> distinct (rows n)"
proof (induction n)
  case (TNode x c ch)
  from TNode.prems have d: "distinct (concat (map elements ch))"
    and x: "x \<notin> set (concat (map elements ch))" by simp_all
  have "distinct (concat (map rows ch))"
    by (rule distinct_concat_rows) (use TNode.IH d in auto)
  moreover have "set (concat (map rows ch)) \<subseteq> set (concat (map elements ch))"
    using set_rows_subset by fastforce
  ultimately show ?case using x by auto
qed

lemma distinct_visibleRows: "distinct (allElements t) \<Longrightarrow> distinct (visibleRows t)"
  unfolding visibleRows_def allElements_def
  by (rule distinct_concat_rows) (auto intro: distinct_rows)

lemma expandNode_absent: "e \<notin> set (elements n) \<Longrightarrow> expandNode e n = n"
  by (induction n) (auto simp: map_idI)

lemma expandTree_absent: "e \<notin> set (allElements t) \<Longrightarrow> expandTree e t = t"
  unfolding allElements_def expandTree_def by (auto intro!: map_idI expandNode_absent)

lemma expand_keeps_prefix_forest:
  assumes node: "\<And>n pre post. n \<in> set t \<Longrightarrow> distinct (elements n) \<Longrightarrow> rows n = pre @ e # post
                  \<Longrightarrow> \<exists>post'. rows (expandNode e n) = pre @ e # post'"
    and "distinct (concat (map elements t))"
    and "concat (map rows t) = pre @ e # post"
  shows "\<exists>post'. concat (map rows (map (expandNode e) t)) = pre @ e # post'"
  using assms
proof (induction t arbitrary: pre)
  case Nil then show ?case by simp
next
  case (Cons n ns)
  let ?R = "concat (map rows ns)"
  from Cons.prems(2) have dn: "distinct (elements n)"
    and dns: "distinct (concat (map elements ns))"
    and disj: "set (elements n) \<inter> set (concat (map elements ns)) = {}" by simp_all
  have subR: "set ?R \<subseteq> set (concat (map elements ns))"
    using set_rows_subset by fastforce
  from Cons.prems(3) have eq: "rows n @ ?R = pre @ e # post" by simp
  show ?case
  proof (cases "e \<in> set (rows n)")
    case True
    then obtain a b where ab: "rows n = a @ e # b" by (meson split_list)
    from True set_rows_subset have en: "e \<in> set (elements n)" by blast
    with disj have "e \<notin> set (concat (map elements ns))" by blast
    then have ns_same: "map (expandNode e) ns = ns"
      by (auto intro!: map_idI expandNode_absent)
    have "distinct (rows n @ ?R)"
      using distinct_visibleRows [of "n # ns"] Cons.prems(2)
      by (simp add: visibleRows_def allElements_def)
    with eq have dd: "distinct (pre @ e # post)" by simp
    from eq ab have "pre @ e # post = a @ e # (b @ ?R)" by simp
    with dd have "pre = a" by (subst (asm) append_Cons_eq_iff) auto
    with ab have "rows n = pre @ e # b" by simp
    from Cons.prems(1) [OF _ dn this] obtain post' where
      "rows (expandNode e n) = pre @ e # post'" by auto
    with ns_same show ?thesis by simp
  next
    case False
    from eq obtain us where
      "(rows n = pre @ us \<and> us @ ?R = e # post) \<or> (rows n @ us = pre \<and> ?R = us @ e # post)"
      by (auto simp: append_eq_append_conv2)
    then obtain us where us: "rows n @ us = pre" "?R = us @ e # post"
    proof
      assume h: "rows n = pre @ us \<and> us @ ?R = e # post"
      show ?thesis
      proof (cases us)
        case Nil
        with h have "rows n @ [] = pre" "?R = [] @ e # post" by simp_all
        then show ?thesis by (rule that)
      next
        case (Cons u us')
        with h have "e \<in> set (rows n)" by auto
        with False show ?thesis by simp
      qed
    next
      assume "rows n @ us = pre \<and> ?R = us @ e # post"
      then show ?thesis using that by blast
    qed
    from us(2) subR have "e \<in> set (concat (map elements ns))" by auto
    with disj have "e \<notin> set (elements n)" by blast
    then have n_same: "expandNode e n = n" by (rule expandNode_absent)
    have "\<exists>post'. concat (map rows (map (expandNode e) ns)) = us @ e # post'"
      by (rule Cons.IH [OF _ dns us(2)]) (use Cons.prems(1) in auto)
    then obtain post' where "concat (map rows (map (expandNode e) ns)) = us @ e # post'" ..
    with n_same us(1) show ?thesis by auto
  qed
qed

lemma expand_keeps_prefix_node:
  "distinct (elements n) \<Longrightarrow> rows n = pre @ e # post
     \<Longrightarrow> \<exists>post'. rows (expandNode e n) = pre @ e # post'"
proof (induction n arbitrary: pre post)
  case (TNode x c ch)
  show ?case
  proof (cases "x = e")
    case True
    have "e \<notin> set (concat (map elements ch))" using TNode.prems(1) True by simp
    moreover have "set (concat (map rows ch)) \<subseteq> set (concat (map elements ch))"
      using set_rows_subset by fastforce
    ultimately have "e \<notin> set (if c then [] else concat (map rows ch))" by auto
    with TNode.prems(2) True have "pre = []"
      by (cases pre) auto
    with True show ?thesis by simp
  next
    case False
    with TNode.prems(2) obtain pre' where pre: "pre = x # pre'"
      and rest: "(if c then [] else concat (map rows ch)) = pre' @ e # post"
      by (cases pre) auto
    from rest have c: "\<not> c" and r: "concat (map rows ch) = pre' @ e # post"
      by (auto split: if_splits)
    from TNode.prems(1) have d: "distinct (concat (map elements ch))" by simp
    have "\<exists>post'. concat (map rows (map (expandNode e) ch)) = pre' @ e # post'"
      by (rule expand_keeps_prefix_forest [OF _ d r]) (use TNode.IH in blast)
    with pre c False show ?thesis by auto
  qed
qed

lemma expand_keeps_prefix:
  assumes "distinct (allElements t)" and "visibleRows t = pre @ e # post"
  shows "\<exists>post'. visibleRows (expandTree e t) = pre @ e # post'"
  using assms unfolding allElements_def visibleRows_def expandTree_def
  by (intro expand_keeps_prefix_forest) (auto intro: expand_keeps_prefix_node)

lemma nodeCollapsed_expandNode_self: "\<not> nodeCollapsed x (expandNode x n)"
  by (induction n) (auto simp: list_ex_iff)

lemma nodeCollapsed_expandNode: "nodeCollapsed y (expandNode x n) \<Longrightarrow> nodeCollapsed y n"
  by (induction n) (auto simp: list_ex_iff split: if_splits)

lemma treeCollapsed_expandTree_self: "\<not> treeCollapsed (expandTree x t) x"
  by (simp add: treeCollapsed_def expandTree_def list_ex_iff nodeCollapsed_expandNode_self)

lemma treeCollapsed_expandTree: "treeCollapsed (expandTree x t) y \<Longrightarrow> treeCollapsed t y"
  by (auto simp: treeCollapsed_def expandTree_def list_ex_iff dest: nodeCollapsed_expandNode)

lemma current_nat:
  "current rs (int k) = (if k < length rs then Some (rs ! k) else None)"
  by (simp add: current_def)

lemma nextUntil_step:
  "nextUntil stop rs (int k - 1) =
     (if k < length rs \<and> \<not> stop (rs ! k) then nextUntil stop rs (int (Suc k) - 1) else int k)"
  by (subst nextUntil.simps) (simp add: current_nat)

lemma nextUntil_find_nat:
  "current rs (nextUntil stop rs (int k - 1)) = List.find stop (drop k rs)"
proof (induction "length rs - k" arbitrary: k)
  case 0
  then show ?case
    by (subst nextUntil_step) (simp add: current_nat)
next
  case (Suc d)
  then have k: "k < length rs" by simp
  then have dr: "drop k rs = rs ! k # drop (Suc k) rs"
    by (simp add: Cons_nth_drop_Suc)
  from Suc(2) have "d = length rs - Suc k" by simp
  from Suc(1) [OF this] k dr show ?case
    by (subst nextUntil_step) (simp add: current_nat)
qed


lemma nextMatchExpanding_step:
  "nextMatchExpanding t (int k - 1) =
     (if k < length (visibleRows t) \<and> \<not> isMatch (visibleRows t ! k)
      then nextMatchExpanding (expandTree (visibleRows t ! k) t) (int (Suc k) - 1)
      else (t, int k))"
  by (subst nextMatchExpanding.simps) (simp add: current_nat)

lemma nextMatchExpanding_stop:
  assumes "\<not> (k < length (visibleRows t) \<and> \<not> isMatch (visibleRows t ! k))"
  shows "nextMatchExpanding t (int k - 1) = (t, int k)"
  using assms by (simp only: nextMatchExpanding_step [of t k] if_False)

lemma nextMatchExpanding_continue:
  assumes "k < length (visibleRows t) \<and> \<not> isMatch (visibleRows t ! k)"
  shows "nextMatchExpanding t (int k - 1) =
           nextMatchExpanding (expandTree (visibleRows t ! k) t) (int (Suc k) - 1)"
  using assms by (simp add: nextMatchExpanding_step [of t k])

lemma scan_stops:
  assumes "\<not> (k < length rs \<and> \<not> isMatch (rs ! k))"
  shows "current rs (int k) = List.find isMatch (drop k rs)"
    and "takeWhile (\<lambda>r. \<not> isMatch r) (drop k rs) = []"
proof -
  show "current rs (int k) = List.find isMatch (drop k rs)"
  proof (cases "k < length rs")
    case True
    with assms have "isMatch (rs ! k)" by simp
    with True show ?thesis
      by (simp add: current_nat Cons_nth_drop_Suc [symmetric])
  next
    case False
    then show ?thesis by (simp add: current_nat)
  qed
  show "takeWhile (\<lambda>r. \<not> isMatch r) (drop k rs) = []"
  proof (cases "k < length rs")
    case True
    with assms have "isMatch (rs ! k)" by simp
    with True show ?thesis
      by (simp add: Cons_nth_drop_Suc [symmetric])
  next
    case False
    then show ?thesis by simp
  qed
qed

lemma nextMatchExpanding_result:
  assumes "distinct (allElements t)"
  shows "case nextMatchExpanding t (int k - 1) of (t', j) \<Rightarrow>
           take k (visibleRows t') = take k (visibleRows t)
         \<and> current (visibleRows t') j = List.find isMatch (drop k (visibleRows t'))
         \<and> (\<forall>x\<in>set (takeWhile (\<lambda>r. \<not> isMatch r) (drop k (visibleRows t'))). \<not> treeCollapsed t' x)
         \<and> allElements t' = allElements t
         \<and> (\<forall>y. treeCollapsed t' y \<longrightarrow> treeCollapsed t y)"
  using assms
proof (induction "length (allElements t) - k" arbitrary: t k)
  case 0
  with length_visibleRows_le [of t]
  have stop: "\<not> (k < length (visibleRows t) \<and> \<not> isMatch (visibleRows t ! k))"
    by simp
  then have "nextMatchExpanding t (int k - 1) = (t, int k)"
    by (rule nextMatchExpanding_stop)
  then show ?case
    using scan_stops [OF stop] by simp
next
  case (Suc d)
  let ?rs = "visibleRows t"
  show ?case
  proof (cases "k < length ?rs \<and> \<not> isMatch (?rs ! k)")
    case False
    then have "nextMatchExpanding t (int k - 1) = (t, int k)"
      by (rule nextMatchExpanding_stop)
    then show ?thesis
      using scan_stops [OF False] by simp
  next
    case True
    define x where "x = ?rs ! k"
    define t2 where "t2 = expandTree x t"
    from True have k: "k < length ?rs" and nm: "\<not> isMatch x" by (simp_all add: x_def)
    have split: "?rs = take k ?rs @ x # drop (Suc k) ?rs"
      unfolding x_def using k by (rule id_take_nth_drop)
    from expand_keeps_prefix [OF Suc.prems split] obtain post' where
      rs2: "visibleRows t2 = take k ?rs @ x # post'" unfolding t2_def by blast
    have el2: "allElements t2 = allElements t"
      by (simp add: t2_def allElements_expandTree)
    then have d2: "distinct (allElements t2)" using Suc.prems by simp
    have "d = length (allElements t2) - Suc k" using Suc(2) el2 by simp
    note IH = Suc(1) [OF this d2]
    obtain t' j where res: "nextMatchExpanding t2 (int (Suc k) - 1) = (t', j)"
      by (cases "nextMatchExpanding t2 (int (Suc k) - 1)")
    let ?rs' = "visibleRows t'"
    from IH res have
      tk: "take (Suc k) ?rs' = take (Suc k) (visibleRows t2)"
      and cur: "current ?rs' j = List.find isMatch (drop (Suc k) ?rs')"
      and ex: "\<forall>y\<in>set (takeWhile (\<lambda>r. \<not> isMatch r) (drop (Suc k) ?rs')). \<not> treeCollapsed t' y"
      and el: "allElements t' = allElements t2"
      and mono: "\<forall>y. treeCollapsed t' y \<longrightarrow> treeCollapsed t2 y"
      by simp_all
    have lk: "length (take k ?rs) = k" using k by simp
    have tk2: "take (Suc k) (visibleRows t2) = take k ?rs @ [x]"
      unfolding rs2 using lk by simp
    from tk tk2 have tk': "take (Suc k) ?rs' = take k ?rs @ [x]" by simp
    then have "length (take (Suc k) ?rs') = Suc k" using lk by simp
    then have k': "k < length ?rs'" by simp
    have "?rs' ! k = take (Suc k) ?rs' ! k" by simp
    also have "\<dots> = x" unfolding tk' using lk by (simp add: nth_append)
    finally have xk: "?rs' ! k = x" .
    have "take k ?rs' = take k (take (Suc k) ?rs')" by (simp add: min_def)
    also have "\<dots> = take k ?rs" unfolding tk' using lk by simp
    finally have pre: "take k ?rs' = take k ?rs" .
    have dr: "drop k ?rs' = x # drop (Suc k) ?rs'"
      using k' xk by (simp add: Cons_nth_drop_Suc [symmetric])
    have nx: "\<not> treeCollapsed t' x"
      using mono treeCollapsed_expandTree_self [of x t] unfolding t2_def by blast
    have mono': "\<forall>y. treeCollapsed t' y \<longrightarrow> treeCollapsed t y"
      using mono treeCollapsed_expandTree unfolding t2_def by blast
    have "nextMatchExpanding t (int k - 1) = (t', j)"
      using nextMatchExpanding_continue [OF True] res by (simp add: x_def t2_def)
    then show ?thesis
      using pre cur ex el el2 nx mono' nm by (simp add: dr)
  qed
qed

lemma indexOf_member:
  "e \<in> set xs \<Longrightarrow> 0 \<le> indexOf e xs \<and> nat (indexOf e xs) < length xs \<and> xs ! nat (indexOf e xs) = e"
proof (induction xs)
  case Nil then show ?case by simp
next
  case (Cons x xs)
  show ?case
  proof (cases "x = e")
    case True then show ?thesis by simp
  next
    case False
    with Cons.prems have "e \<in> set xs" by simp
    from Cons.IH [OF this] False show ?thesis
      by (simp add: Let_def nat_add_distrib)
  qed
qed

lemma index_as_position:
  assumes "e \<in> set (visibleRows (tree v))"
  shows "indexOf e (visibleRows (tree v)) = int (Suc (position e v)) - 1"
    and "position e v < length (visibleRows (tree v))"
    and "visibleRows (tree v) ! position e v = e"
  using indexOf_member [OF assms] by (simp_all add: position_def)

lemma nextUntil_find_after:
  "current rs (nextUntil stop rs (int p)) = List.find stop (drop (Suc p) rs)"
  using nextUntil_find_nat [of rs stop "Suc p"] by simp

lemma nextMatchExpanding_result_after:
  assumes "distinct (allElements t)" and "nextMatchExpanding t (int p) = (t', j)"
  shows "take (Suc p) (visibleRows t') = take (Suc p) (visibleRows t)"
    and "current (visibleRows t') j = List.find isMatch (drop (Suc p) (visibleRows t'))"
    and "\<forall>x\<in>set (takeWhile (\<lambda>r. \<not> isMatch r) (drop (Suc p) (visibleRows t'))). \<not> treeCollapsed t' x"
    and "allElements t' = allElements t"
    and "\<forall>y. treeCollapsed t' y \<longrightarrow> treeCollapsed t y"
  using nextMatchExpanding_result [OF assms(1), of "Suc p"] assms(2) by simp_all

text \<open>
  C3, as the claim states it, fails for an element that is not a row of the control. For
  an element of the tree hidden under a collapsed node the navigator starts before the
  first row: in the example, the third match, hidden in the collapsed second file, gets
  the first match of the first file, which comes before it in the tree. For an element
  that is not in the tree, \<open>viewer.navigate\<close> throws and nothing is returned.
\<close>

theorem getNextElementAfterRemoved_hidden_counterexample:
  "allElements (tree exampleViewer) =
     [RFolder rootFolder, RFile fileA, RMatch exampleMatch, RMatch otherMatch, RFile fileB,
      RMatch thirdMatch]
   \<and> visibleRows (tree exampleViewer) =
     [RFolder rootFolder, RFile fileA, RMatch exampleMatch, RMatch otherMatch, RFile fileB]
   \<and> getNextElementAfterRemoved exampleViewer (RMatch thirdMatch) =
       Inr (Some (RMatch exampleMatch), exampleViewer)
   \<and> getNextElementAfterRemoved exampleViewer (RMatch strayMatch) =
       Inl (Error ''TreeError: Tree element not found'')"
  by code_simp

text \<open>
  C3, amended. For a tree whose elements are distinct objects and an element that is a
  row of the control, \<open>getNextElementAfterRemoved\<close> returns, and what it returns is the
  first row after the element's row that has the kind of the element (a folder match for
  a folder match, a file match for a file match, otherwise a line match), or \<open>null\<close>
  when there is none. The rows up to the element stay as they were. For a folder or file
  match the control is not changed. For a line match the rows are those after the
  expansions: every row passed over is not a line match and is expanded, nothing is
  collapsed, and the elements of the tree are the same.
\<close>

theorem getNextElementAfterRemoved_next_of_kind:
  assumes "distinct (allElements (tree v))" and "element \<in> set (visibleRows (tree v))"
  shows "visibleRows (tree v) ! position element v = element
     \<and> (case getNextElementAfterRemoved v element of
           Inl err \<Rightarrow> False
         | Inr (nextElement, v') \<Rightarrow>
             take (Suc (position element v)) (visibleRows (tree v')) =
               take (Suc (position element v)) (visibleRows (tree v))
           \<and> nextElement = List.find (sameKind element)
                      (drop (Suc (position element v)) (visibleRows (tree v')))
           \<and> (\<not> isMatch element \<longrightarrow> v' = v)
           \<and> (isMatch element \<longrightarrow>
                (\<forall>x\<in>set (takeWhile (\<lambda>r. \<not> isMatch r)
                            (drop (Suc (position element v)) (visibleRows (tree v')))).
                    \<not> isCollapsed v' x))
           \<and> v' = v\<lparr>tree := tree v'\<rparr>
           \<and> allElements (tree v') = allElements (tree v)
           \<and> (\<forall>y. isCollapsed v' y \<longrightarrow> isCollapsed v y))"
proof -
  let ?p = "position element v"
  let ?rs = "visibleRows (tree v)"
  note pos = index_as_position [OF assms(2)]
  from assms(2) set_visibleRows_subset have mem: "element \<in> set (allElements (tree v))"
    by blast
  then have nav: "navigate v element = Inr (int ?p)"
    by (simp add: navigate_def pos(1))
  show ?thesis
  proof (cases element)
    case (RFolder f)
    then have "getNextElementAfterRemoved v element =
        Inr (List.find isFolderMatch (drop (Suc ?p) ?rs), v)"
      unfolding getNextElementAfterRemoved_def nav
      by (simp add: nextUntil_find_after)
    with RFolder pos(3) show ?thesis
      by (simp add: sameKind_def [abs_def])
  next
    case (RFile f)
    then have "getNextElementAfterRemoved v element =
        Inr (List.find isFileMatch (drop (Suc ?p) ?rs), v)"
      unfolding getNextElementAfterRemoved_def nav
      by (simp add: nextUntil_find_after)
    with RFile pos(3) show ?thesis
      by (simp add: sameKind_def [abs_def])
  next
    case (RMatch m)
    obtain t' j where res: "nextMatchExpanding (tree v) (int ?p) = (t', j)"
      by (cases "nextMatchExpanding (tree v) (int ?p)")
    with RMatch have g: "getNextElementAfterRemoved v element =
        Inr (current (visibleRows t') j, v\<lparr>tree := t'\<rparr>)"
      unfolding getNextElementAfterRemoved_def nav by simp
    note r = nextMatchExpanding_result_after [OF assms(1) res]
    from g RMatch pos(3) r show ?thesis
      by (simp add: sameKind_def [abs_def] isCollapsed_def)
  qed
qed

theorem getNextElementAfterRemoved_next_of_kind_witness:
  "distinct (allElements (tree exampleViewer))
   \<and> RMatch otherMatch \<in> set (visibleRows (tree exampleViewer))
   \<and> getNextElementAfterRemoved exampleViewer (RMatch otherMatch) =
       Inr (Some (RMatch thirdMatch), expandedViewer)
   \<and> Some (RMatch thirdMatch) =
       List.find (sameKind (RMatch otherMatch))
         (drop (Suc (position (RMatch otherMatch) exampleViewer)) (visibleRows (tree expandedViewer)))
   \<and> isCollapsed exampleViewer (RFile fileB)
   \<and> \<not> isCollapsed expandedViewer (RFile fileB)"
proof -
  have d: "distinct (allElements (tree exampleViewer))"
    by code_simp
  have shown: "RMatch otherMatch \<in> set (visibleRows (tree exampleViewer))"
    by code_simp
  have ev: "getNextElementAfterRemoved exampleViewer (RMatch otherMatch) =
      Inr (Some (RMatch thirdMatch), expandedViewer)"
    by code_simp
  from getNextElementAfterRemoved_next_of_kind [OF d shown]
  have "Some (RMatch thirdMatch) =
       List.find (sameKind (RMatch otherMatch))
         (drop (Suc (position (RMatch otherMatch) exampleViewer)) (visibleRows (tree expandedViewer)))"
    unfolding ev by simp
  moreover have "isCollapsed exampleViewer (RFile fileB)"
    by code_simp
  moreover have "\<not> isCollapsed expandedViewer (RFile fileB)"
    by code_simp
  ultimately show ?thesis
    using d shown ev by simp
qed

text \<open>
  C2. \<open>getElementToFocusAfterRemoved\<close> returns what \<open>getNextElementAfterRemoved\<close> returns
  when that is not \<open>null\<close>; otherwise it returns what \<open>getPreviousElementAfterRemoved\<close>
  returns, called on the control as \<open>getNextElementAfterRemoved\<close> left it.
\<close>

theorem getElementToFocusAfterRemoved_next_else_previous:
  "(\<forall>x v'. getNextElementAfterRemoved v e = Inr (Some x, v') \<longrightarrow>
       getElementToFocusAfterRemoved api v e tv = Inr (Some x, v'))
   \<and> (\<forall>v'. getNextElementAfterRemoved v e = Inr (None, v') \<longrightarrow>
       getElementToFocusAfterRemoved api v e tv = getPreviousElementAfterRemoved api v' e tv)
   \<and> (\<forall>err. getNextElementAfterRemoved v e = Inl err \<longrightarrow>
       getElementToFocusAfterRemoved api v e tv = Inl err)"
  by (simp add: getElementToFocusAfterRemoved_def)

theorem getElementToFocusAfterRemoved_next_else_previous_witness:
  "getNextElementAfterRemoved exampleViewer (RMatch otherMatch) =
       Inr (Some (RMatch thirdMatch), expandedViewer)
   \<and> getElementToFocusAfterRemoved exampleApi exampleViewer (RMatch otherMatch) True =
       Inr (Some (RMatch thirdMatch), expandedViewer)
   \<and> getNextElementAfterRemoved exampleViewer (RFile fileB) = Inr (None, exampleViewer)
   \<and> getPreviousElementAfterRemoved exampleApi exampleViewer (RFile fileB) True =
       Inr (Some (RMatch otherMatch), exampleViewer)
   \<and> getElementToFocusAfterRemoved exampleApi exampleViewer (RFile fileB) True =
       Inr (Some (RMatch otherMatch), exampleViewer)"
proof -
  have n1: "getNextElementAfterRemoved exampleViewer (RMatch otherMatch) =
       Inr (Some (RMatch thirdMatch), expandedViewer)"
    by code_simp
  have n2: "getNextElementAfterRemoved exampleViewer (RFile fileB) = Inr (None, exampleViewer)"
    by code_simp
  have p2: "getPreviousElementAfterRemoved exampleApi exampleViewer (RFile fileB) True =
       Inr (Some (RMatch otherMatch), exampleViewer)"
    by code_simp
  note t1 = getElementToFocusAfterRemoved_next_else_previous
              [of exampleViewer "RMatch otherMatch" exampleApi True]
  note t2 = getElementToFocusAfterRemoved_next_else_previous
              [of exampleViewer "RFile fileB" exampleApi True]
  from t1 [THEN conjunct1] n1
  have "getElementToFocusAfterRemoved exampleApi exampleViewer (RMatch otherMatch) True =
       Inr (Some (RMatch thirdMatch), expandedViewer)"
    by blast
  moreover from t2 [THEN conjunct2, THEN conjunct1] n2 p2
  have "getElementToFocusAfterRemoved exampleApi exampleViewer (RFile fileB) True =
       Inr (Some (RMatch otherMatch), exampleViewer)"
    by simp
  ultimately show ?thesis
    using n1 n2 p2 by simp
qed

section \<open>The search-result model under the remove and replace actions\<close>

lemma searchView_viewletOpen [simp]: "searchView (viewletOpen b e w) = searchView w"
  by (simp add: viewletOpen_def)

lemma searchView_openReplacePreview [simp]: "searchView (openReplacePreview e w) = searchView w"
  by (simp add: openReplacePreview_def)

lemma getElementsToOperateOnInfo_nonempty:
  "fst (getElementsToOperateOnInfo cmp v currElement order) \<noteq> []"
  by (auto simp: getElementsToOperateOnInfo_def Let_def)

lemma RemoveAction_run_model:
  "searchView (snd (RemoveAction_run env elem w)) =
     (if fst (RemoveAction_run env elem w) = None
      then removeFromModel env (elementsOf env elem w) w
      else searchView w)"
proof -
  obtain es r where info:
    "getElementsToOperateOnInfo (env_searchComparer env) (viewer w) elem (env_sortOrder env) = (es, r)"
    by (cases "getElementsToOperateOnInfo (env_searchComparer env) (viewer w) elem (env_sortOrder env)")
  with getElementsToOperateOnInfo_nonempty
    [of "env_searchComparer env" "viewer w" elem "env_sortOrder env"]
  have ne: "es \<noteq> []" by simp
  obtain err v1 where loop:
    "(if r then reselectBeforeRemove env (treeLayoutVisible w) es es (viewer w) else (None, viewer w))
       = (err, v1)"
    by (cases "if r then reselectBeforeRemove env (treeLayoutVisible w) es es (viewer w)
               else (None, viewer w)")
  show ?thesis
    unfolding RemoveAction_run_def info elementsOf_def
    using ne loop
    by (cases err; cases "searchView w")
       (simp_all add: Let_def removeFromModel_def getSearchView_def)
qed

lemma performReplace_model:
  "searchView (snd (performReplace env viewlet elem w)) =
     replaceInModel env (elementsOf env elem w) w"
proof -
  obtain es r where info:
    "getElementsToOperateOnInfo (env_searchComparer env) (viewer w) elem (env_sortOrder env) = (es, r)"
    by (cases "getElementsToOperateOnInfo (env_searchComparer env) (viewer w) elem (env_sortOrder env)")
  show ?thesis
    unfolding performReplace_def info elementsOf_def
    by (cases "searchView w")
       (simp_all add: Let_def replaceInModel_def getSearchView_def
          split: renderable.split sum.split prod.split option.split)
qed


lemma nextMatchExpanding_elements:
  "allElements (fst (nextMatchExpanding t i)) = allElements t"
proof (induction t i rule: nextMatchExpanding.induct)
  case (1 t i)
  show ?case
  proof (cases "current (visibleRows t) (i + 1)")
    case None
    then show ?thesis by (subst nextMatchExpanding.simps) simp
  next
    case (Some x)
    show ?thesis
    proof (cases "isMatch x")
      case True
      with Some show ?thesis by (subst nextMatchExpanding.simps) simp
    next
      case False
      from "1.IH" [OF Some False] Some False show ?thesis
        by (subst nextMatchExpanding.simps) (simp add: allElements_expandTree)
    qed
  qed
qed

lemma nextMatchExpanding_elements':
  "nextMatchExpanding t i = (t', j) \<Longrightarrow> allElements t' = allElements t"
  using nextMatchExpanding_elements [of t i] by simp

lemma getNextElementAfterRemoved_elements:
  assumes "getNextElementAfterRemoved v e = Inr (r, v')"
  shows "allElements (tree v') = allElements (tree v)"
proof -
  from assms obtain i where nav: "navigate v e = Inr i"
    by (cases "navigate v e") (simp_all add: getNextElementAfterRemoved_def)
  obtain t' j where res: "nextMatchExpanding (tree v) i = (t', j)"
    by (cases "nextMatchExpanding (tree v) i")
  from nextMatchExpanding_elements' [OF res] have "allElements t' = allElements (tree v)" .
  with assms nav res show ?thesis
    by (cases "isFolderMatch e"; cases "isFileMatch e")
       (auto simp: getNextElementAfterRemoved_def)
qed

lemma expandAndStepBack_elements:
  "allElements (tree (fst (expandAndStepBack isKind e s))) = allElements (tree (fst s))"
proof -
  obtain v i p where s: "s = (v, i, p)" by (cases s)
  show ?thesis
    unfolding s
    by (cases p)
       (simp_all add: expandAndStepBack_def expand_def allElements_expandTree Let_def)
qed

lemma getPreviousElementAfterRemoved_elements:
  assumes "getPreviousElementAfterRemoved api v e tv = Inr (r, v')"
  shows "allElements (tree v') = allElements (tree v)"
proof -
  from assms obtain i0 where nav: "navigate v e = Inr i0"
    by (cases "navigate v e") (simp_all add: getPreviousElementAfterRemoved_def)
  obtain i3 p3 where sb: "stepBackPastParents api (visibleRows (tree v)) e tv i0 = (i3, p3)"
    by (cases "stepBackPastParents api (visibleRows (tree v)) e tv i0")
  let ?s = "expandAndStepBack isFileMatch e (expandAndStepBack isFolderMatch e (v, i3, p3))"
  obtain v5 i5 p5 where ex: "?s = (v5, i5, p5)"
    by (cases ?s)
  from assms nav sb ex have "v' = v5"
    by (simp add: getPreviousElementAfterRemoved_def)
  moreover have "allElements (tree (fst ?s)) = allElements (tree v)"
    by (simp add: expandAndStepBack_elements)
  ultimately show ?thesis
    using ex by simp
qed

lemma getElementToFocusAfterRemoved_elements:
  assumes "getElementToFocusAfterRemoved api v e tv = Inr (r, v')"
  shows "allElements (tree v') = allElements (tree v)"
proof (cases "getNextElementAfterRemoved v e")
  case (Inl err)
  with assms show ?thesis by (simp add: getElementToFocusAfterRemoved_def)
next
  case (Inr res)
  obtain n v1 where res: "res = (n, v1)" by (cases res)
  note e1 = getNextElementAfterRemoved_elements [OF Inr [unfolded res]]
  show ?thesis
  proof (cases n)
    case (Some x)
    with assms Inr res e1 show ?thesis by (simp add: getElementToFocusAfterRemoved_def)
  next
    case None
    with assms Inr res have "getPreviousElementAfterRemoved api v1 e tv = Inr (r, v')"
      by (simp add: getElementToFocusAfterRemoved_def)
    from getPreviousElementAfterRemoved_elements [OF this] e1 show ?thesis by simp
  qed
qed

lemma tree_focusAndSelect [simp]: "tree (focusAndSelect e v) = tree v"
  by (simp add: focusAndSelect_def setSelection_def setFocus_def split: option.split)

lemma reselectBeforeRemove_elements:
  "allElements (tree (snd (reselectBeforeRemove env tv all es v))) = allElements (tree v)"
proof (induction es arbitrary: v)
  case Nil
  then show ?case by simp
next
  case (Cons c es)
  show ?case
  proof (cases "env_arrayContainsElementOrParent env c all")
    case False
    with Cons.IH [of v] show ?thesis by simp
  next
    case True
    show ?thesis
    proof (cases "getElementToFocusAfterRemoved (env_api env) v c tv")
      case (Inl err)
      with True show ?thesis by simp
    next
      case (Inr res)
      obtain r v1 where res: "res = (r, v1)" by (cases res)
      from getElementToFocusAfterRemoved_elements [OF Inr [unfolded res]]
      have "allElements (tree v1) = allElements (tree v)" .
      with Cons.IH [of v1] True Inr res show ?thesis
        by (simp add: setSelection_def setFocus_def reveal_def split: option.split)
    qed
  qed
qed

lemma RemoveAction_run_elements:
  "allElements (tree (viewer (snd (RemoveAction_run env elem w)))) = allElements (tree (viewer w))"
proof -
  obtain es r where info:
    "getElementsToOperateOnInfo (env_searchComparer env) (viewer w) elem (env_sortOrder env) = (es, r)"
    by (cases "getElementsToOperateOnInfo (env_searchComparer env) (viewer w) elem (env_sortOrder env)")
  obtain err v1 where loop:
    "(if r then reselectBeforeRemove env (treeLayoutVisible w) es es (viewer w) else (None, viewer w))
       = (err, v1)"
    by (cases "if r then reselectBeforeRemove env (treeLayoutVisible w) es es (viewer w)
               else (None, viewer w)")
  have "allElements (tree v1) = allElements (tree (viewer w))"
    using loop reselectBeforeRemove_elements [of env "treeLayoutVisible w" es es "viewer w"]
    by (auto split: if_splits)
  then show ?thesis
    unfolding RemoveAction_run_def info
    using loop
    by (cases err; cases "searchView w")
       (simp_all add: Let_def getSearchView_def domFocus_def)
qed


lemma getElementToShowReplacePreview_elements:
  assumes "getElementToShowReplacePreview env v f c tv = Inr (p, v')"
  shows "allElements (tree v') = allElements (tree v)"
proof (cases "hasSameParent env f c")
  case True
  with assms show ?thesis by (simp add: getElementToShowReplacePreview_def)
next
  case False
  with assms obtain ef where f: "f = Some ef"
    by (cases f) (simp_all add: getElementToShowReplacePreview_def)
  with assms False obtain q v1 where
    prev: "getPreviousElementAfterRemoved (env_api env) v ef tv = Inr (q, v1)"
    by (cases "getPreviousElementAfterRemoved (env_api env) v ef tv")
       (auto simp: getElementToShowReplacePreview_def)
  with assms False f have "v' = v1"
    by (simp add: getElementToShowReplacePreview_def split: if_splits)
  with getPreviousElementAfterRemoved_elements [OF prev] show ?thesis by simp
qed

lemma viewer_viewletOpen [simp]: "viewer (viewletOpen b e w) = viewer w"
  by (simp add: viewletOpen_def)

lemma viewer_openReplacePreview [simp]: "viewer (openReplacePreview e w) = viewer w"
  by (simp add: openReplacePreview_def)

lemma tree_domFocus [simp]: "tree (domFocus v) = tree v"
  by (simp add: domFocus_def)

lemma performReplace_elements:
  "allElements (tree (viewer (snd (performReplace env viewlet elem w)))) =
     allElements (tree (viewer w))"
proof -
  obtain es r where info:
    "getElementsToOperateOnInfo (env_searchComparer env) (viewer w) elem (env_sortOrder env) = (es, r)"
    by (cases "getElementsToOperateOnInfo (env_searchComparer env) (viewer w) elem (env_sortOrder env)")
  define w1 where "w1 = (case getSearchView w of
                      None \<Rightarrow> w
                    | Some sv \<Rightarrow>
                        w\<lparr>searchView := Some (sv\<lparr>searchResult :=
                              env_batchReplace env es (searchResult sv)\<rparr>)\<rparr>)"
  have vw1: "viewer w1 = viewer w"
    by (simp add: w1_def split: option.split)
  show ?thesis
  proof (cases "last es")
    case (RMatch cm)
    let ?f = "getElementToFocusAfterReplace (env_api env) (viewer w1) cm"
    let ?v2 = "focusAndSelect ?f (viewer w1)"
    show ?thesis
    proof (cases "getElementToShowReplacePreview env ?v2 ?f (last es) (treeLayoutVisible w1)")
      case (Inl err)
      with RMatch show ?thesis
        unfolding performReplace_def info
        by (simp add: Let_def w1_def [symmetric] vw1)
    next
      case (Inr res)
      obtain p v3 where res: "res = (p, v3)" by (cases res)
      from getElementToShowReplacePreview_elements [OF Inr [unfolded res]]
      have "allElements (tree v3) = allElements (tree (viewer w))"
        by (simp add: vw1)
      with RMatch Inr res show ?thesis
        unfolding performReplace_def info
        by (simp add: Let_def w1_def [symmetric] split: option.split)
    qed
  next
    case (RFile f)
    then show ?thesis
      unfolding performReplace_def info
      by (simp add: Let_def w1_def [symmetric] vw1 runnerGetElementToFocusAfterRemoved_def)
  next
    case (RFolder f)
    then show ?thesis
      unfolding performReplace_def info
      by (simp add: Let_def w1_def [symmetric] vw1 runnerGetElementToFocusAfterRemoved_def)
  qed
qed

text \<open>
  Replacing all in a file or a folder: \<open>batchReplace\<close> is called, then the runner's call of
  \<open>getElementToFocusAfterRemoved\<close> throws; focus, selection and the control stay as they
  were and no editor is opened.
\<close>

lemma performReplace_not_a_match:
  assumes "\<not> isMatch (last (elementsOf env elem w))"
  shows "performReplace env viewlet elem w =
     (Some (Error ''TypeError: this.getNextElementAfterRemoved is not a function''),
      w\<lparr>searchView := replaceInModel env (elementsOf env elem w) w\<rparr>)"
proof -
  obtain es r where info:
    "getElementsToOperateOnInfo (env_searchComparer env) (viewer w) elem (env_sortOrder env) = (es, r)"
    by (cases "getElementsToOperateOnInfo (env_searchComparer env) (viewer w) elem (env_sortOrder env)")
  with assms have "\<not> isMatch (last es)"
    by (simp add: elementsOf_def)
  then show ?thesis
    unfolding performReplace_def info elementsOf_def
    by (cases "last es"; cases "searchView w")
       (simp_all add: Let_def runnerGetElementToFocusAfterRemoved_def replaceInModel_def
          getSearchView_def)
qed

text \<open>
  C6. After \<open>RemoveAction.run\<close> the active search view is the one before it with
  \<open>batchRemove\<close> of the elements applied to its model (and as before when an exception
  ended the run first); after \<open>performReplace\<close>, however it ends, it is the one before it
  with \<open>batchReplace\<close> of the elements applied to its model; when the last element to
  replace is not a line match, it ends with the \<open>TypeError\<close> of the runner's call of
  \<open>getElementToFocusAfterRemoved\<close> and changes nothing else. The traversal, the parent
  lookups, the expansions and the focus and selection changes leave the elements of the
  tree control as they were, and the copy commands leave the active search view as it was.
\<close>

theorem model_mutated_only_by_batch_calls:
  "searchView (snd (RemoveAction_run env elem w)) =
     (if fst (RemoveAction_run env elem w) = None
      then removeFromModel env (elementsOf env elem w) w
      else searchView w)
   \<and> searchView (snd (performReplace env viewlet elem w)) =
       replaceInModel env (elementsOf env elem w) w
   \<and> (\<not> isMatch (last (elementsOf env elem w)) \<longrightarrow>
        performReplace env viewlet elem w =
          (Some (Error ''TypeError: this.getNextElementAfterRemoved is not a function''),
           w\<lparr>searchView := replaceInModel env (elementsOf env elem w) w\<rparr>))
   \<and> allElements (tree (viewer (snd (RemoveAction_run env elem w)))) = allElements (tree (viewer w))
   \<and> allElements (tree (viewer (snd (performReplace env viewlet elem w)))) =
       allElements (tree (viewer w))
   \<and> searchView (copyPathCommand cenv arg w) = searchView w
   \<and> (case copyMatchCommand cenv arg w of Inl err \<Rightarrow> True | Inr w' \<Rightarrow> searchView w' = searchView w)"
  by (simp add: RemoveAction_run_model performReplace_model RemoveAction_run_elements
      performReplace_elements performReplace_not_a_match copyPathCommand_def
      copyMatchCommand_def writeText_def
      split: option.split sum.split)

theorem model_mutated_only_by_batch_calls_witness:
  "fst (RemoveAction_run exampleActionEnv (RMatch otherMatch) exampleWorld) = None
   \<and> elementsOf exampleActionEnv (RMatch otherMatch) exampleWorld = [RMatch otherMatch]
   \<and> map_option searchResult
        (searchView (snd (RemoveAction_run exampleActionEnv (RMatch otherMatch) exampleWorld))) =
       Some ([RMatch exampleMatch, RMatch thirdMatch], [])
   \<and> focus (viewer (snd (RemoveAction_run exampleActionEnv (RMatch otherMatch) exampleWorld))) =
       [RMatch thirdMatch]
   \<and> elementsOf exampleActionEnv (RFile fileA) exampleWorld = [RFile fileA]
   \<and> fst (performReplace exampleActionEnv True (RFile fileA) exampleWorld) =
       Some (Error ''TypeError: this.getNextElementAfterRemoved is not a function'')
   \<and> map_option searchResult
        (searchView (snd (performReplace exampleActionEnv True (RFile fileA) exampleWorld))) =
       Some ([RMatch exampleMatch, RMatch otherMatch, RMatch thirdMatch], [RFile fileA])
   \<and> map_option searchResult
        (searchView (snd (performReplace exampleActionEnv True (RMatch otherMatch) exampleWorld))) =
       Some ([RMatch exampleMatch, RMatch thirdMatch], [RMatch otherMatch])"
proof -
  have ok: "fst (RemoveAction_run exampleActionEnv (RMatch otherMatch) exampleWorld) = None"
    by code_simp
  have es: "elementsOf exampleActionEnv (RMatch otherMatch) exampleWorld = [RMatch otherMatch]"
    by code_simp
  have rm: "map_option searchResult
      (removeFromModel exampleActionEnv [RMatch otherMatch] exampleWorld) =
      Some ([RMatch exampleMatch, RMatch thirdMatch], [])"
    by code_simp
  have fc: "focus (viewer (snd (RemoveAction_run exampleActionEnv (RMatch otherMatch) exampleWorld))) =
       [RMatch thirdMatch]"
    by code_simp
  have fs: "elementsOf exampleActionEnv (RFile fileA) exampleWorld = [RFile fileA]"
    by code_simp
  have thrown: "fst (performReplace exampleActionEnv True (RFile fileA) exampleWorld) =
       Some (Error ''TypeError: this.getNextElementAfterRemoved is not a function'')"
    by code_simp
  have rf: "map_option searchResult (replaceInModel exampleActionEnv [RFile fileA] exampleWorld) =
      Some ([RMatch exampleMatch, RMatch otherMatch, RMatch thirdMatch], [RFile fileA])"
    by code_simp
  have rp: "map_option searchResult
      (replaceInModel exampleActionEnv [RMatch otherMatch] exampleWorld) =
      Some ([RMatch exampleMatch, RMatch thirdMatch], [RMatch otherMatch])"
    by code_simp
  note t = model_mutated_only_by_batch_calls
             [of exampleActionEnv "RMatch otherMatch" exampleWorld True]
  note u = model_mutated_only_by_batch_calls
             [of exampleActionEnv "RFile fileA" exampleWorld True]
  from t [THEN conjunct1]
  have "searchView (snd (RemoveAction_run exampleActionEnv (RMatch otherMatch) exampleWorld)) =
      removeFromModel exampleActionEnv [RMatch otherMatch] exampleWorld"
    unfolding ok es by simp
  moreover from t [THEN conjunct2, THEN conjunct1]
  have "searchView (snd (performReplace exampleActionEnv True (RMatch otherMatch) exampleWorld)) =
      replaceInModel exampleActionEnv [RMatch otherMatch] exampleWorld"
    unfolding es by simp
  moreover from u [THEN conjunct2, THEN conjunct1]
  have "searchView (snd (performReplace exampleActionEnv True (RFile fileA) exampleWorld)) =
      replaceInModel exampleActionEnv [RFile fileA] exampleWorld"
    unfolding fs by simp
  ultimately show ?thesis
    using rm rf rp ok es fs fc thrown by simp
qed

end
